theory Spec2Isabelle
  imports Complex_Main "HOL-Library.Word"
begin

section \<open>JavaScript values\<close>

text \<open>
  A JavaScript string is a sequence of UTF-16 code units; \<open>length\<close> is the
  source's \<open>.length\<close>, and a regular expression without the \<open>u\<close> flag
  matches code unit by code unit. ASCII literals of the source are written
  through \<open>ascii\<close>; other literals are given by their code units.
\<close>

type_synonym jsstring = "16 word list"

definition ascii :: "string \<Rightarrow> jsstring" where
  "ascii s = map (\<lambda>c. of_nat (of_char c)) s"

text \<open>
  Array indexing \<open>xs[i]\<close> with a number: \<open>undefined\<close> (here \<open>None\<close>) outside
  the array.
\<close>

definition js_index :: "'a list \<Rightarrow> int \<Rightarrow> 'a option" where
  "js_index xs i = (if 0 \<le> i \<and> i < int (length xs) then Some (xs ! nat i) else None)"

text \<open>
  Truthiness of a value that is a string or \<open>undefined\<close>: only a non-empty
  string is truthy.
\<close>

definition truthy :: "jsstring option \<Rightarrow> bool" where
  "truthy v = (case v of None \<Rightarrow> False | Some s \<Rightarrow> s \<noteq> [])"

text \<open>
  A thrown value as a \<open>catch\<close> clause sees it: an \<open>Error\<close> with its message,
  or a value that is not an instance of \<open>Error\<close>.
\<close>

datatype js_error = Error jsstring | NonError

section \<open>Reply generation (src/lib/text-generation.ts)\<close>

datatype language = zh_CN | en_US

definition empatheticResponsesEN :: "jsstring list" where
  "empatheticResponsesEN =
    [ascii ''I hear you. That sounds tough.'',
     ascii ''I understand. That must be difficult.'',
     ascii ''You're not alone in feeling this way.'',
     ascii ''That's a challenging situation. I'm here to listen.'',
     ascii ''Thank you for sharing. Your feelings matter.'',
     ascii ''It's okay to feel this way. You'll get through this.'',
     ascii ''I'm sorry you're going through this.'']"

definition empatheticResponsesCN :: "jsstring list" where
  "empatheticResponsesCN =
    [[0x6211, 0x7406, 0x89E3, 0x3002, 0x90A3, 0x4E00, 0x5B9A, 0x5F88, 0x96BE, 0x3002],
     [0x4F60, 0x4E0D, 0x662F, 0x4E00, 0x4E2A, 0x4EBA, 0x3002, 0x6211, 0x5728, 0x8FD9, 0x91CC, 0x3002],
     [0x611F, 0x8C22, 0x4F60, 0x7684, 0x5206, 0x4EAB, 0x3002, 0x4F60, 0x7684, 0x611F, 0x53D7, 0x5F88,
      0x91CD, 0x8981, 0x3002],
     [0x8FD9, 0x662F, 0x4E00, 0x4E2A, 0x6311, 0x6218, 0x3002, 0x4F60, 0x4F1A, 0x5EA6, 0x8FC7, 0x8FD9,
      0x4E00, 0x5173, 0x3002],
     [0x6211, 0x5F88, 0x9057, 0x61BE, 0x4F60, 0x8981, 0x7ECF, 0x5386, 0x8FD9, 0x4E2A, 0x3002],
     [0x90A3, 0x542C, 0x8D77, 0x6765, 0x5F88, 0x56F0, 0x96BE, 0x3002, 0x575A, 0x6301, 0x4E0B, 0x53BB,
      0x3002],
     [0x4F60, 0x5F88, 0x52C7, 0x6562, 0x3002, 0x7EE7, 0x7EED, 0x524D, 0x8FDB, 0x3002]]"

text \<open>
  The character class of \<open>chineseCharRegex\<close>: the code units U+4E00 to U+9FFF
  and U+3400 to U+4DBF.
\<close>

definition chineseCharRegex :: "16 word \<Rightarrow> bool" where
  "chineseCharRegex c \<longleftrightarrow> (0x4E00 \<le> c \<and> c \<le> 0x9FFF) \<or> (0x3400 \<le> c \<and> c \<le> 0x4DBF)"

text \<open>
  \<open>text.match(re)\<close> for a global regular expression that is one character
  class: the array of the matched code units, or \<open>null\<close> when nothing matches.
\<close>

definition js_match :: "(16 word \<Rightarrow> bool) \<Rightarrow> jsstring \<Rightarrow> jsstring option" where
  "js_match cls text = (let ms = filter cls text in if ms = [] then None else Some ms)"

text \<open>
  A positive real in the normal range rounded to an IEEE 754 double: to the
  nearest multiple of \<open>2^(e - 52)\<close>, where \<open>2^e \<le> x < 2^(e + 1)\<close>, a tie going to
  the even multiple.
\<close>

definition round_half_even :: "real \<Rightarrow> int" where
  "round_half_even y =
    (let f = \<lfloor>y\<rfloor>
     in if y - of_int f < 1 / 2 then f
        else if y - of_int f > 1 / 2 then f + 1
        else if even f then f else f + 1)"

definition double_of :: "real \<Rightarrow> real" where
  "double_of x =
    (let q = 2 powr (of_int (\<lfloor>log 2 x\<rfloor> - 52))
     in of_int (round_half_even (x / q)) * q)"

text \<open>
  \<open>detectLanguage\<close>. The quotient of the two lengths and the literal \<open>0.3\<close>
  are doubles in the source and are taken as exact reals here: comparing
  \<open>double_of (c / n)\<close> with \<open>double_of 0.3\<close> gives the same answer whenever
  \<open>text\<close> is shorter than \<open>2^50\<close> code units (lemmas
  \<open>double_quotient_gt_three_tenths\<close> and \<open>detectLanguage_with_doubles\<close> below),
  which is beyond what a JavaScript engine stores. A \<open>null\<close> match is falsy, so the division is reached only
  with a non-empty \<open>text\<close>.
\<close>

definition detectLanguage :: "jsstring \<Rightarrow> language" where
  "detectLanguage text =
    (case js_match chineseCharRegex text of
       None \<Rightarrow> en_US
     | Some chineseChars \<Rightarrow>
         if real (length chineseChars) / real (length text) > 0.3 then zh_CN else en_US)"

text \<open>
  What \<open>fetch('/api/generate-reply')\<close> and \<open>response.json()\<close> give the client:
  the fetch promise rejects, or a response arrives with a status (\<open>response.ok\<close>
  is a status in 200..299) and a body that either fails to parse as JSON or is
  an object whose \<open>text\<close> property is a string or missing.
\<close>

datatype http_body = Unparsable | Json "jsstring option"

datatype fetch_result = FetchRejected | Response nat http_body

definition response_ok :: "nat \<Rightarrow> bool" where
  "response_ok status \<longleftrightarrow> 200 \<le> status \<and> status \<le> 299"

text \<open>What the \<open>try\<close> block of \<open>generateReply\<close> throws.\<close>

datatype reply_failure = FetchFailed | GenerateReplyFailed nat | JsonFailed

text \<open>
  The \<open>try\<close> block of \<open>generateReply\<close> (lines 69-96). The request body built
  from the prompt and the language instruction only travels to the server and
  decides no branch here; the server's answer is the parameter \<open>fetched\<close>.
\<close>

definition generateReply_try :: "fetch_result \<Rightarrow> reply_failure + jsstring option" where
  "generateReply_try fetched =
    (case fetched of
       FetchRejected \<Rightarrow> Inl FetchFailed
     | Response status body \<Rightarrow>
         if \<not> response_ok status then Inl (GenerateReplyFailed status)
         else (case body of Unparsable \<Rightarrow> Inl JsonFailed | Json t \<Rightarrow> Inr t))"

text \<open>
  The \<open>catch\<close> block (lines 97-104): \<open>rnd\<close> is the value of \<open>Math.random()\<close>,
  a number in \<open>[0, 1)\<close>.
\<close>

definition canned_responses :: "language \<Rightarrow> jsstring list" where
  "canned_responses inputLanguage =
    (if inputLanguage = zh_CN then empatheticResponsesCN else empatheticResponsesEN)"

definition generateReply_catch :: "real \<Rightarrow> jsstring \<Rightarrow> jsstring option" where
  "generateReply_catch rnd prompt =
    (let inputLanguage = detectLanguage prompt;
         responses = canned_responses inputLanguage;
         randomIndex = \<lfloor>rnd * real (length responses)\<rfloor>
     in js_index responses randomIndex)"

text \<open>
  \<open>generateReply\<close>: \<open>Inr v\<close> is the promise resolving with \<open>v\<close> (\<open>None\<close> is
  \<open>undefined\<close>), \<open>Inl e\<close> the promise rejecting with \<open>e\<close>. Whatever the \<open>try\<close>
  block throws is caught, and the \<open>catch\<close> block throws nothing.
\<close>

definition generateReply :: "fetch_result \<Rightarrow> real \<Rightarrow> jsstring \<Rightarrow> js_error + jsstring option" where
  "generateReply fetched rnd prompt =
    (case generateReply_try fetched of
       Inr v \<Rightarrow> Inr v
     | Inl e \<Rightarrow> Inr (generateReply_catch rnd prompt))"

section \<open>The generation route and its provider chain (src/unnamed/part_003)\<close>

text \<open>
  What one provider call gives the route: the fetch promise rejects, the
  response is not ok, the response is ok but its body does not parse, or the
  response is ok and the text extracted from its JSON is a string or missing.
\<close>

datatype provider_response = Rejected | Status_not_ok | Ok_unparsable | Ok_json "jsstring option"

text \<open>
  What the route reads besides the provider calls: whether the request body
  parses as JSON, the two API keys of the environment (\<open>None\<close> is
  \<open>undefined\<close>) and \<open>LLM_PROVIDER\<close>, lower-cased, with \<open>''\<close> for a missing one.
  The three provider calls are the one to OpenAI's Chat Completions
  (\<open>chatRes\<close>), the one to OpenAI's Responses API (\<open>respRes\<close>) and the one to
  Groq (\<open>groqRes\<close>); a call that the code does not reach is not looked at.
\<close>

record route_env =
  request_parses :: bool
  openaiKey :: "jsstring option"
  groqKey :: "jsstring option"
  provider :: jsstring

text \<open>
  \<open>tryOpenAI\<close> and \<open>tryGroq\<close>: \<open>Inr None\<close> is \<open>null\<close>, \<open>Inl ()\<close> a thrown error.
\<close>

definition tryOpenAI :: "route_env \<Rightarrow> provider_response \<Rightarrow> provider_response \<Rightarrow> unit + jsstring option" where
  "tryOpenAI env chatRes respRes =
    (if \<not> truthy (openaiKey env) then Inr None
     else
       let responsesApi =
         (case respRes of
            Rejected \<Rightarrow> Inl ()
          | Ok_unparsable \<Rightarrow> Inl ()
          | Ok_json text \<Rightarrow> if truthy text then Inr text else Inr None
          | Status_not_ok \<Rightarrow> Inr None)
       in (case chatRes of
            Rejected \<Rightarrow> Inl ()
          | Ok_unparsable \<Rightarrow> Inl ()
          | Ok_json text \<Rightarrow> if truthy text then Inr text else responsesApi
          | Status_not_ok \<Rightarrow> responsesApi))"

definition tryGroq :: "route_env \<Rightarrow> provider_response \<Rightarrow> unit + jsstring option" where
  "tryGroq env groqRes =
    (if \<not> truthy (groqKey env) then Inr None
     else (case groqRes of
            Rejected \<Rightarrow> Inl ()
          | Ok_unparsable \<Rightarrow> Inl ()
          | Ok_json text \<Rightarrow> if truthy text then Inr text else Inr None
          | Status_not_ok \<Rightarrow> Inr None))"

definition or_else :: "unit + jsstring option \<Rightarrow> unit + jsstring option \<Rightarrow> unit + jsstring option" where
  "or_else first second =
    (case first of
       Inl e \<Rightarrow> Inl e
     | Inr outputText \<Rightarrow> if \<not> truthy outputText then second else Inr outputText)"

definition POST_try :: "route_env \<Rightarrow> provider_response \<Rightarrow> provider_response \<Rightarrow> provider_response \<Rightarrow> unit + fetch_result" where
  "POST_try env chatRes respRes groqRes =
    (if \<not> request_parses env then Inl ()
     else
       (case (if provider env = ascii ''groq''
              then or_else (tryGroq env groqRes) (tryOpenAI env chatRes respRes)
              else or_else (tryOpenAI env chatRes respRes) (tryGroq env groqRes)) of
          Inl e \<Rightarrow> Inl e
        | Inr outputText \<Rightarrow>
            if truthy outputText then Inr (Response 200 (Json outputText))
            else Inr (Response 429 (Json None))))"

definition POST :: "route_env \<Rightarrow> provider_response \<Rightarrow> provider_response \<Rightarrow> provider_response \<Rightarrow> fetch_result" where
  "POST env chatRes respRes groqRes =
    (case POST_try env chatRes respRes groqRes of
       Inr response \<Rightarrow> response
     | Inl e \<Rightarrow> Response 500 (Json None))"

text \<open>
  A provider call fails when it errors, returns a response that is not ok, or
  returns one without usable text. The call to the route fails when it errors
  or returns a response that is not ok.
\<close>

definition provider_failed :: "provider_response \<Rightarrow> bool" where
  "provider_failed r \<longleftrightarrow>
    (case r of
       Rejected \<Rightarrow> True
     | Status_not_ok \<Rightarrow> True
     | Ok_unparsable \<Rightarrow> True
     | Ok_json text \<Rightarrow> \<not> truthy text)"

definition fetch_failed :: "fetch_result \<Rightarrow> bool" where
  "fetch_failed f \<longleftrightarrow> (case f of FetchRejected \<Rightarrow> True | Response status body \<Rightarrow> \<not> response_ok status)"

section \<open>The turn orchestrator (src/components/VoiceInterface.tsx)\<close>

datatype phase = Idle | Listening | Processing | Speaking

datatype role = User | Assistant

type_synonym entry = "role \<times> jsstring"

text \<open>
  \<open>handleTranscript\<close> and \<open>generateAndSpeak\<close> are \<open>async\<close>: each runs until its
  next \<open>await\<close> and is resumed when the awaited promise settles. A call of
  \<open>generateAndSpeak\<close> that is suspended is a \<open>task\<close>: it waits for
  \<open>generateReply\<close> (holding \<open>userText\<close>) or for \<open>synthesizeAndPlay\<close> (holding
  \<open>reply\<close>). The calls the component makes to its collaborators and its
  \<open>setPhase\<close> calls are recorded, in order, in \<open>trace\<close>.
\<close>

datatype task = AwaitingReply jsstring | AwaitingSynthesis jsstring

datatype effect =
    SetPhase phase
  | CallGenerateReply jsstring
  | CallSynthesizeAndPlay jsstring jsstring
  | Disconnect
  | SetTimeout nat
  | Connect

text \<open>
  The state of the component: its \<open>useState\<close> values and \<open>useRef\<close> cells.
  \<open>ttsClientRef\<close> holds the voice name of the current \<open>AzureTTSClient\<close>,
  \<open>clientRef\<close> whether the recognition client is connected (\<open>None\<close> is
  \<open>null\<close> for both); \<open>timers\<close> are the due times of the pending
  \<open>setTimeout\<close> callbacks.
\<close>

record orchestrator =
  phase :: phase
  transcripts :: "entry list"
  latency :: int
  lastMessageTime :: int
  userSubtitle :: jsstring
  assistantFeedback :: jsstring
  isGenerating :: bool
  ttsClientRef :: "jsstring option"
  clientRef :: "bool option"
  tasks :: "task list"
  timers :: "int list"
  trace :: "effect list"

text \<open>The state at mount, \<open>now\<close> being \<open>Date.now()\<close> then.\<close>

definition mounted :: "int \<Rightarrow> orchestrator" where
  "mounted now =
    \<lparr>phase = Idle, transcripts = [], latency = 0, lastMessageTime = now, userSubtitle = [],
     assistantFeedback = [], isGenerating = False, ttsClientRef = None, clientRef = None,
     tasks = [], timers = [], trace = []\<rparr>"

text \<open>
  \<open>startSession\<close> (lines 62-95) with the microphone granted: \<open>cleanup\<close>
  disconnects an earlier client, then the TTS client and the recognition
  client are created and the latter is connected.
\<close>

definition startSession :: "orchestrator \<Rightarrow> orchestrator" where
  "startSession s =
    s\<lparr>ttsClientRef := Some (ascii ''en-US-JennyNeural''),
      clientRef := Some True,
      trace := trace s @ (if clientRef s = None then [] else [Disconnect]) @ [Connect]\<rparr>"

text \<open>The updater passed to \<open>setTranscripts\<close> in \<open>handleTranscript\<close> (lines 104-110).\<close>

definition interim_suffix :: jsstring where
  "interim_suffix = [0x20, 0x2026]"

definition user_entry_update :: "jsstring \<Rightarrow> bool \<Rightarrow> entry list \<Rightarrow> entry list" where
  "user_entry_update text isFinal prev =
    (let shown = (if isFinal then text else text @ interim_suffix)
     in if prev \<noteq> [] \<and> fst (last prev) = User
        then butlast prev @ [(User, shown)]
        else prev @ [(User, shown)])"

text \<open>\<open>generateAndSpeak\<close> up to its first \<open>await\<close> (lines 129-132).\<close>

definition generateAndSpeak_start :: "jsstring \<Rightarrow> orchestrator \<Rightarrow> orchestrator" where
  "generateAndSpeak_start userText s =
    s\<lparr>isGenerating := True,
      tasks := tasks s @ [AwaitingReply userText],
      trace := trace s @ [CallGenerateReply userText]\<rparr>"

text \<open>
  \<open>handleTranscript\<close> (lines 97-121) up to the \<open>await\<close> inside
  \<open>generateAndSpeak\<close>; \<open>now\<close> is \<open>Date.now()\<close>.
\<close>

definition handleTranscript :: "int \<Rightarrow> jsstring \<Rightarrow> bool \<Rightarrow> orchestrator \<Rightarrow> orchestrator" where
  "handleTranscript now text isFinal s =
    (let s1 = s\<lparr>latency := now - lastMessageTime s,
                lastMessageTime := now,
                userSubtitle := text,
                transcripts := user_entry_update text isFinal (transcripts s)\<rparr>
     in if \<not> isFinal
        then s1\<lparr>phase := Listening, trace := trace s1 @ [SetPhase Listening]\<rparr>
        else generateAndSpeak_start text
               (s1\<lparr>phase := Processing, trace := trace s1 @ [SetPhase Processing]\<rparr>))"

text \<open>The \<open>finally\<close> block of \<open>generateAndSpeak\<close> (lines 167-180).\<close>

definition generateAndSpeak_finally :: "int \<Rightarrow> orchestrator \<Rightarrow> orchestrator" where
  "generateAndSpeak_finally now s =
    (let s1 = s\<lparr>isGenerating := False, phase := Idle, trace := trace s @ [SetPhase Idle]\<rparr>
     in case clientRef s1 of
          None \<Rightarrow> s1
        | Some c \<Rightarrow>
            s1\<lparr>clientRef := Some False,
               timers := timers s1 @ [now + 500],
               trace := trace s1 @ [Disconnect, SetTimeout 500]\<rparr>)"

definition remove_task :: "nat \<Rightarrow> task list \<Rightarrow> task list" where
  "remove_task k ts = take k ts @ drop (Suc k) ts"

definition voice_for :: "language \<Rightarrow> jsstring" where
  "voice_for responseLanguage =
    (if responseLanguage = zh_CN then ascii ''zh-CN-YunyangNeural'' else ascii ''en-US-JennyNeural'')"

text \<open>
  Task \<open>k\<close> resumes after \<open>await generateReply\<close> (lines 132-152, or the
  \<open>catch\<close> at 162-166 when the promise rejected), and runs to
  \<open>await synthesizeAndPlay\<close> or through the \<open>finally\<close> block. The promise is
  typed \<open>Promise<string>\<close>, so a resolved value is a string.
\<close>

definition reply_settled :: "int \<Rightarrow> nat \<Rightarrow> js_error + jsstring \<Rightarrow> orchestrator \<Rightarrow> orchestrator" where
  "reply_settled now k outcome s =
    (if k < length (tasks s) then
       (case tasks s ! k of
          AwaitingSynthesis r \<Rightarrow> s
        | AwaitingReply userText \<Rightarrow>
            (case outcome of
               Inr reply \<Rightarrow>
                 (let s1 = s\<lparr>assistantFeedback := reply,
                             transcripts := transcripts s @ [(Assistant, reply)]\<rparr>
                  in case ttsClientRef s1 of
                       None \<Rightarrow>
                         generateAndSpeak_finally now (s1\<lparr>tasks := remove_task k (tasks s1)\<rparr>)
                     | Some c \<Rightarrow>
                         (let responseLanguage = detectLanguage reply;
                              voiceName = voice_for responseLanguage
                          in s1\<lparr>phase := Speaking,
                                ttsClientRef := Some voiceName,
                                tasks := (tasks s1)[k := AwaitingSynthesis reply],
                                trace := trace s1 @
                                  [SetPhase Speaking, CallSynthesizeAndPlay voiceName reply]\<rparr>))
             | Inl error \<Rightarrow>
                 (let errorMsg = (case error of Error m \<Rightarrow> m | NonError \<Rightarrow> ascii ''Unknown error'');
                      msg = ascii ''Sorry, I ran into an issue: '' @ errorMsg
                  in generateAndSpeak_finally now
                       (s\<lparr>assistantFeedback := msg,
                          transcripts := transcripts s @ [(Assistant, msg)],
                          tasks := remove_task k (tasks s)\<rparr>))))
     else s)"

text \<open>
  Task \<open>k\<close> resumes after \<open>await synthesizeAndPlay\<close> (lines 153-160), the
  promise resolved (\<open>ok\<close>) or rejected, and runs through the \<open>finally\<close> block.
\<close>

definition synthesis_settled :: "int \<Rightarrow> nat \<Rightarrow> bool \<Rightarrow> orchestrator \<Rightarrow> orchestrator" where
  "synthesis_settled now k ok s =
    (if k < length (tasks s) then
       (case tasks s ! k of
          AwaitingReply u \<Rightarrow> s
        | AwaitingSynthesis reply \<Rightarrow>
            (let s1 = (if ok then s
                       else s\<lparr>transcripts := butlast (transcripts s) @
                                 [(Assistant, reply @ ascii '' (audio failed)'')]\<rparr>)
             in generateAndSpeak_finally now (s1\<lparr>tasks := remove_task k (tasks s1)\<rparr>)))
     else s)"

text \<open>
  The clock reaches \<open>now\<close>: every timer that is due runs its callback,
  \<open>clientRef.current?.connect()\<close>. A timer set at time \<open>t\<close> with delay \<open>d\<close> is
  due from \<open>t + d\<close> on.
\<close>

definition timers_fire :: "int \<Rightarrow> orchestrator \<Rightarrow> orchestrator" where
  "timers_fire now s =
    (let due = filter (\<lambda>t. t \<le> now) (timers s)
     in s\<lparr>timers := filter (\<lambda>t. \<not> t \<le> now) (timers s),
          clientRef := (if due = [] then clientRef s else map_option (\<lambda>c. True) (clientRef s)),
          trace := trace s @ (if clientRef s = None then [] else replicate (length due) Connect)\<rparr>)"

text \<open>The effects a step added to the trace.\<close>

definition emitted :: "orchestrator \<Rightarrow> orchestrator \<Rightarrow> effect list" where
  "emitted s s' = drop (length (trace s)) (trace s')"

text \<open>\<open>a\<close> occurs in \<open>tr\<close> and \<open>b\<close> occurs somewhere after it.\<close>

definition precedes :: "effect \<Rightarrow> effect \<Rightarrow> effect list \<Rightarrow> bool" where
  "precedes a b tr \<longleftrightarrow> (\<exists>i < length tr. tr ! i = a \<and> b \<in> set (drop (Suc i) tr))"

section \<open>Visual feedback (src/components/VoiceInterface.tsx, lines 216-261)\<close>

text \<open>
  The \<open>brightness\<close> and \<open>bloom\<close> state and the four refs that keep what the
  last listening render computed.
\<close>

record visuals =
  brightness :: real
  bloom :: real
  prevVisualPhaseRef :: phase
  lastListeningAudioRef :: real
  lastListeningBrightnessRef :: real
  lastListeningBloomRef :: real

definition visuals_mounted :: visuals where
  "visuals_mounted =
    \<lparr>brightness = 1.0, bloom = 1.0, prevVisualPhaseRef = Idle, lastListeningAudioRef = 0,
     lastListeningBrightnessRef = 1.0, lastListeningBloomRef = 1.0\<rparr>"

text \<open>
  The effect with dependencies \<open>[phase, audioIntensity]\<close> (lines 216-235): React
  runs it after every render in which one of the two changed. It reads nothing
  but the two, so running it again with the same pair changes nothing.
\<close>

definition feedback_effect :: "phase \<Rightarrow> real \<Rightarrow> visuals \<Rightarrow> visuals" where
  "feedback_effect ph audioIntensity v =
    (if ph = Listening then
       (let dynamicBloom = 1.5 + audioIntensity * 4.5;
            dynamicBrightness = 1.0 + audioIntensity * 2.0
        in v\<lparr>brightness := dynamicBrightness,
             bloom := dynamicBloom,
             prevVisualPhaseRef := ph,
             lastListeningAudioRef := audioIntensity,
             lastListeningBrightnessRef := dynamicBrightness,
             lastListeningBloomRef := dynamicBloom\<rparr>)
     else v\<lparr>brightness := 1.0, bloom := 1.0\<rparr>)"

text \<open>What a render hands to the renderer (lines 258-261, 274, 278).\<close>

definition effectiveAudioIntensity :: "phase \<Rightarrow> real \<Rightarrow> visuals \<Rightarrow> real" where
  "effectiveAudioIntensity ph audioIntensity v =
    (if ph = Speaking \<or> ph = Processing then lastListeningAudioRef v else audioIntensity)"

definition effectiveBrightness :: "phase \<Rightarrow> visuals \<Rightarrow> real" where
  "effectiveBrightness ph v =
    (if ph = Speaking \<or> ph = Processing then lastListeningBrightnessRef v else brightness v)"

definition effectiveBloom :: "phase \<Rightarrow> visuals \<Rightarrow> real" where
  "effectiveBloom ph v =
    (if ph = Speaking \<or> ph = Processing then lastListeningBloomRef v else bloom v)"

text \<open>
  A history of the component: the pairs \<open>(phase, audioIntensity)\<close> of its
  successive renders, each followed by the effect.
\<close>

definition renders :: "(phase \<times> real) list \<Rightarrow> visuals \<Rightarrow> visuals" where
  "renders history v = fold (\<lambda>(ph, audioIntensity). feedback_effect ph audioIntensity) history v"

section \<open>Audio analysis and playback (src/lib/audio-processor.ts)\<close>

text \<open>
  A JavaScript number where the special values matter: a finite number as a
  real, the two infinities and \<open>NaN\<close>.
\<close>

datatype jsnum = Num real | PosInf | NegInf | NaN

text \<open>The constructor: \<open>fftSize = 2048\<close>, and the frame has \<open>frequencyBinCount\<close> bytes.\<close>

definition fftSize :: nat where
  "fftSize = 2048"

definition frequencyBinCount :: nat where
  "frequencyBinCount = fftSize div 2"

text \<open>
  \<open>getAudioIntensity\<close> (lines 30-42) on the frame that \<open>getByteFrequencyData\<close>
  wrote into \<open>dataArray\<close>. The squares and their sum are integers below
  \<open>2^53\<close> for a frame of \<open>frequencyBinCount\<close> bytes, so they are exact in the
  source; \<open>Math.sqrt\<close> is taken as the real square root. An empty frame
  gives \<open>0 / 0\<close>, which is \<open>NaN\<close>, and \<open>Math.min(NaN, 1)\<close> is \<open>NaN\<close>.
\<close>

definition sum_of_squares :: "8 word list \<Rightarrow> real" where
  "sum_of_squares dataArray =
    fold (\<lambda>i sum. sum + real (unat (dataArray ! i)) * real (unat (dataArray ! i)))
      [0 ..< length dataArray] 0"

definition getAudioIntensity :: "8 word list \<Rightarrow> jsnum" where
  "getAudioIntensity dataArray =
    (let sum = sum_of_squares dataArray
     in if length dataArray = 0 then NaN
        else (let rms = sqrt (sum / real (length dataArray)) in Num (min (rms / 128) 1)))"

subsection \<open>Silence detection (lines 186-221)\<close>

text \<open>
  The fields of \<open>AudioProcessor\<close> that silence detection uses.
  \<open>silenceCheckIntervalId\<close> is the id that the last \<open>setInterval\<close> returned,
  or \<open>undefined\<close> (here \<open>None\<close>) after \<open>stopSilenceDetection\<close>. The browser's
  timers are part of the state: \<open>intervals\<close> are the ids of the intervals that
  are running and \<open>nextIntervalId\<close> is the id \<open>setInterval\<close> gives next.
  \<open>callbacks\<close> lists the times at which \<open>onSilenceDetected\<close> was called.
\<close>

record silence_detector =
  silenceThreshold :: real
  silenceDuration :: real
  lastSoundTime :: int
  hasDetectedSound :: bool
  onSilenceDetected :: bool
  silenceCheckIntervalId :: "nat option"
  intervals :: "nat list"
  nextIntervalId :: nat
  callbacks :: "int list"

text \<open>
  \<open>startSilenceDetection\<close> (lines 186-194, 210-211) sets a new interval and
  stores its id. It clears nothing: an interval that was running goes on
  running, and its id is lost.
\<close>

definition startSilenceDetection :: "real \<Rightarrow> real \<Rightarrow> int \<Rightarrow> silence_detector \<Rightarrow> silence_detector" where
  "startSilenceDetection threshold duration now d =
    d\<lparr>onSilenceDetected := True,
      silenceThreshold := threshold,
      silenceDuration := duration,
      lastSoundTime := now,
      hasDetectedSound := False,
      silenceCheckIntervalId := Some (nextIntervalId d),
      intervals := intervals d @ [nextIntervalId d],
      nextIntervalId := Suc (nextIntervalId d)\<rparr>"

text \<open>\<open>stopSilenceDetection\<close> (lines 216-221) clears the interval whose id is stored.\<close>

definition stopSilenceDetection :: "silence_detector \<Rightarrow> silence_detector" where
  "stopSilenceDetection d =
    (case silenceCheckIntervalId d of
       None \<Rightarrow> d
     | Some i \<Rightarrow> d\<lparr>intervals := removeAll i (intervals d), silenceCheckIntervalId := None\<rparr>)"

text \<open>
  One run of the interval callback (lines 194-210), made by any interval that
  is running: \<open>intensity\<close> is what \<open>getAudioIntensity\<close> returned and \<open>now\<close> is
  \<open>Date.now()\<close>. With no interval running there is no run.
\<close>

definition silence_check :: "int \<Rightarrow> real \<Rightarrow> silence_detector \<Rightarrow> silence_detector" where
  "silence_check now intensity d =
    (if intervals d = [] then d
     else if intensity > silenceThreshold d then
       d\<lparr>hasDetectedSound := True, lastSoundTime := now\<rparr>
     else if hasDetectedSound d then
       (let silenceTime = now - lastSoundTime d
        in if real_of_int silenceTime \<ge> silenceDuration d then
             (let d1 = stopSilenceDetection d
              in if onSilenceDetected d1 then d1\<lparr>callbacks := callbacks d1 @ [now]\<rparr> else d1)
           else d)
     else d)"

text \<open>
  The polls of a run, each a pair \<open>(now, intensity)\<close>, and the index of the
  first poll at which the callback is called.
\<close>

fun first_callback :: "(int \<times> real) list \<Rightarrow> silence_detector \<Rightarrow> nat option" where
  "first_callback [] d = None"
| "first_callback ((now, intensity) # polls) d =
    (let d1 = silence_check now intensity d
     in if length (callbacks d1) > length (callbacks d) then Some 0
        else map_option Suc (first_callback polls d1))"

definition run_polls :: "(int \<times> real) list \<Rightarrow> silence_detector \<Rightarrow> silence_detector" where
  "run_polls polls d = fold (\<lambda>(now, intensity). silence_check now intensity) polls d"

text \<open>
  The claim's words: at poll \<open>k\<close>, the time elapsed since the last sample
  above the threshold among the polls \<open>0..k\<close>, if there is one; the poll is
  due when that time is at least the duration.
\<close>

definition elapsed_since_loud :: "real \<Rightarrow> (int \<times> real) list \<Rightarrow> nat \<Rightarrow> int option" where
  "elapsed_since_loud threshold polls k =
    (case filter (\<lambda>p. snd p > threshold) (take (Suc k) polls) of
       [] \<Rightarrow> None
     | l # ls \<Rightarrow> Some (fst (polls ! k) - fst (last (l # ls))))"

definition silence_due :: "real \<Rightarrow> real \<Rightarrow> (int \<times> real) list \<Rightarrow> nat \<Rightarrow> bool" where
  "silence_due threshold duration polls k \<longleftrightarrow>
    (case elapsed_since_loud threshold polls k of
       None \<Rightarrow> False
     | Some e \<Rightarrow> real_of_int e \<ge> duration)"

subsection \<open>PCM16 to Float32 (playAudio, lines 56-70)\<close>

text \<open>
  \<open>new Int16Array(pcm16Data)\<close> over an \<open>ArrayBuffer\<close>: a \<open>RangeError\<close> (here
  \<open>None\<close>) when the byte length is odd, else one element per two bytes, low
  byte first on the little-endian platforms browsers run on.
\<close>

fun int16_view :: "8 word list \<Rightarrow> 16 word list option" where
  "int16_view [] = Some []"
| "int16_view [b] = None"
| "int16_view (lo # hi # bytes) = map_option ((#) (word_cat hi lo)) (int16_view bytes)"

text \<open>
  The conversion loop. \<open>int16Array[i] / 32768.0\<close> is a multiple of \<open>2^-15\<close> of
  magnitude at most 1, which a Float32 holds exactly.
\<close>

definition pcm16_to_float32 :: "16 word list \<Rightarrow> real list" where
  "pcm16_to_float32 int16Array =
    fold (\<lambda>i float32Array. float32Array[i := real_of_int (sint (int16Array ! i)) / 32768.0])
      [0 ..< length int16Array] (replicate (length int16Array) 0)"

text \<open>
  The playback fields of \<open>AudioProcessor\<close>: the queue of converted chunks and
  the \<open>isPlaying\<close> flag. \<open>sourcesStarted\<close> lists, in order, the chunks that were
  copied into a buffer whose source was started (\<open>source.start()\<close>).
\<close>

record playback =
  audioQueue :: "real list list"
  isPlaying :: bool
  sourcesStarted :: "real list list"

definition playback_constructed :: playback where
  "playback_constructed = \<lparr>audioQueue = [], isPlaying = False, sourcesStarted = []\<rparr>"

text \<open>
  \<open>processAudioQueue\<close> (lines 72-102): with an empty queue it clears the flag;
  otherwise it sets the flag, shifts the first chunk off the queue, copies it
  into a buffer of its length and starts a source on that buffer. It contains
  no \<open>await\<close>, so a call runs to its end at once. \<open>createBuffer\<close> throws a
  \<open>NotSupportedError\<close> for a length of 0 (Web Audio API: the length must be at
  least 1): for an empty chunk the function ends there, after the flag and the
  queue were written and with no source started; its caller does not await it,
  so the rejection goes nowhere. The \<open>onended\<close> handler of a started source
  calls the function again.
\<close>

definition processAudioQueue :: "playback \<Rightarrow> playback" where
  "processAudioQueue p =
    (case audioQueue p of
       [] \<Rightarrow> p\<lparr>isPlaying := False\<rparr>
     | audioData # rest \<Rightarrow>
         (let p1 = p\<lparr>isPlaying := True, audioQueue := rest\<rparr>
          in if audioData = [] then p1
             else p1\<lparr>sourcesStarted := sourcesStarted p1 @ [audioData]\<rparr>))"

definition stopAudio :: "playback \<Rightarrow> playback" where
  "stopAudio p = p\<lparr>audioQueue := [], isPlaying := False\<rparr>"

text \<open>
  \<open>playAudio\<close> (lines 56-70): the converted samples are pushed onto
  \<open>audioQueue\<close>, and \<open>processAudioQueue\<close> is called unless a chunk is playing;
  \<open>Inl ()\<close> is the \<open>RangeError\<close>.
\<close>

definition playAudio :: "8 word list \<Rightarrow> playback \<Rightarrow> unit + playback" where
  "playAudio pcm16Data p =
    (case int16_view pcm16Data of
       None \<Rightarrow> Inl ()
     | Some int16Array \<Rightarrow>
         (let float32Array = pcm16_to_float32 int16Array;
              p1 = p\<lparr>audioQueue := audioQueue p @ [float32Array]\<rparr>
          in Inr (if \<not> isPlaying p1 then processAudioQueue p1 else p1)))"

section \<open>Float32 to PCM16 (src/unnamed/part_001, lines 159-166)\<close>

text \<open>\<open>Math.min\<close>, \<open>Math.max\<close>, \<open><\<close> and \<open>*\<close> by a positive constant, on numbers.\<close>

fun js_min :: "jsnum \<Rightarrow> jsnum \<Rightarrow> jsnum" where
  "js_min NaN y = NaN"
| "js_min x NaN = NaN"
| "js_min NegInf y = NegInf"
| "js_min x NegInf = NegInf"
| "js_min PosInf y = y"
| "js_min x PosInf = x"
| "js_min (Num a) (Num b) = Num (min a b)"

fun js_max :: "jsnum \<Rightarrow> jsnum \<Rightarrow> jsnum" where
  "js_max NaN y = NaN"
| "js_max x NaN = NaN"
| "js_max PosInf y = PosInf"
| "js_max x PosInf = PosInf"
| "js_max NegInf y = y"
| "js_max x NegInf = x"
| "js_max (Num a) (Num b) = Num (max a b)"

fun js_less :: "jsnum \<Rightarrow> jsnum \<Rightarrow> bool" where
  "js_less NaN y = False"
| "js_less x NaN = False"
| "js_less PosInf y = False"
| "js_less x NegInf = False"
| "js_less NegInf y = True"
| "js_less x PosInf = True"
| "js_less (Num a) (Num b) = (a < b)"

definition js_le :: "jsnum \<Rightarrow> jsnum \<Rightarrow> bool" where
  "js_le x y \<longleftrightarrow> js_less x y \<or> (x = y \<and> x \<noteq> NaN)"

fun js_times_pos :: "jsnum \<Rightarrow> real \<Rightarrow> jsnum" where
  "js_times_pos (Num a) c = Num (a * c)"
| "js_times_pos x c = x"

text \<open>
  Storing a number into an \<open>Int16Array\<close> element (\<open>ToInt16\<close>): \<open>NaN\<close> and the
  infinities become 0; a finite number is truncated toward zero and taken
  modulo \<open>2^16\<close>.
\<close>

definition truncate_toward_zero :: "real \<Rightarrow> int" where
  "truncate_toward_zero x = (if x < 0 then \<lceil>x\<rceil> else \<lfloor>x\<rfloor>)"

fun to_int16 :: "jsnum \<Rightarrow> 16 word" where
  "to_int16 (Num x) = word_of_int (truncate_toward_zero x)"
| "to_int16 x = 0"

text \<open>The body of the loop of \<open>float32ToPCM16\<close>, for one sample.\<close>

definition float32_sample_to_pcm16 :: "jsnum \<Rightarrow> 16 word" where
  "float32_sample_to_pcm16 x =
    (let s = js_max (Num (- 1)) (js_min (Num 1) x)
     in to_int16 (if js_less s (Num 0) then js_times_pos s 0x8000 else js_times_pos s 0x7fff))"

definition float32ToPCM16 :: "jsnum list \<Rightarrow> 16 word list" where
  "float32ToPCM16 float32Array =
    fold (\<lambda>i pcm16. pcm16[i := float32_sample_to_pcm16 (float32Array ! i)])
      [0 ..< length float32Array] (replicate (length float32Array) 0)"

section \<open>Speech recognition client (src/lib/web-speech-stt.ts)\<close>

record recognition_config =
  continuous :: bool
  interimResults :: bool
  maxAlternatives :: nat
  lang :: jsstring

text \<open>The settings \<open>setupRecognition\<close> writes (lines 45-58).\<close>

definition setupRecognition :: "jsstring \<Rightarrow> recognition_config" where
  "setupRecognition language =
    \<lparr>continuous = False, interimResults = False, maxAlternatives = 5, lang = language\<rparr>"

text \<open>
  A result event: \<open>resultIndex\<close>, and for each result the transcripts of its
  alternatives. \<open>results[i][0].transcript\<close> throws a \<open>TypeError\<close> when result
  \<open>i\<close> has no alternative.
\<close>

record speech_event =
  resultIndex :: nat
  results :: "jsstring list list"

text \<open>The code units \<open>String.prototype.trim\<close> removes: white space and line terminators.\<close>

definition js_whitespace :: "16 word \<Rightarrow> bool" where
  "js_whitespace c \<longleftrightarrow>
    c \<in> {0x09, 0x0A, 0x0B, 0x0C, 0x0D, 0x20, 0xA0, 0x1680, 0x2028, 0x2029, 0x202F, 0x205F,
         0x3000, 0xFEFF} \<or> (0x2000 \<le> c \<and> c \<le> 0x200A)"

definition js_trim :: "jsstring \<Rightarrow> jsstring" where
  "js_trim s = rev (dropWhile js_whitespace (rev (dropWhile js_whitespace s)))"

text \<open>
  \<open>recognition.onresult\<close> (lines 66-80): the calls it makes to \<open>onTranscript\<close>,
  or \<open>Inl ()\<close> when the loop throws.
\<close>

definition collect_transcripts :: "speech_event \<Rightarrow> unit + jsstring" where
  "collect_transcripts event =
    fold (\<lambda>i acc. case acc of
                     Inl e \<Rightarrow> Inl e
                   | Inr collected \<Rightarrow>
                       (case results event ! i of
                          [] \<Rightarrow> Inl ()
                        | transcript # alternatives \<Rightarrow> Inr (collected @ transcript @ ascii '' '')))
      [resultIndex event ..< length (results event)] (Inr [])"

definition onresult :: "speech_event \<Rightarrow> unit + (jsstring \<times> bool) list" where
  "onresult event =
    (case collect_transcripts event of
       Inl e \<Rightarrow> Inl e
     | Inr collected \<Rightarrow>
         (let text = js_trim collected;
              isFinal = True
          in if text \<noteq> [] then Inr [(text, isFinal)] else Inr []))"

text \<open>
  The component passes \<open>handleTranscript\<close> as \<open>onTranscript\<close> (line 75): a
  result event at time \<open>now\<close> runs it on every call \<open>onresult\<close> makes.
\<close>

definition recognition_result :: "int \<Rightarrow> speech_event \<Rightarrow> orchestrator \<Rightarrow> orchestrator" where
  "recognition_result now event s =
    (case onresult event of
       Inl e \<Rightarrow> s
     | Inr calls \<Rightarrow> fold (\<lambda>(text, isFinal). handleTranscript now text isFinal) calls s)"


section \<open>One turn, and example states\<close>

text \<open>
  A turn that starts in state \<open>s\<close>: the final transcript \<open>text\<close> arrives at
  time \<open>t1\<close>, which starts the task with index \<open>length (tasks s)\<close>; its
  \<open>generateReply\<close> resolves with \<open>reply\<close> at \<open>t2\<close>; its \<open>synthesizeAndPlay\<close>
  settles at \<open>t3\<close>, resolved (\<open>ok\<close>) or rejected.
\<close>

definition turn_replied :: "int \<Rightarrow> jsstring \<Rightarrow> int \<Rightarrow> jsstring \<Rightarrow> orchestrator \<Rightarrow> orchestrator" where
  "turn_replied t1 text t2 reply s =
    reply_settled t2 (length (tasks s)) (Inr reply) (handleTranscript t1 text True s)"

definition turn_spoken :: "int \<Rightarrow> jsstring \<Rightarrow> int \<Rightarrow> jsstring \<Rightarrow> int \<Rightarrow> bool \<Rightarrow> orchestrator \<Rightarrow> orchestrator" where
  "turn_spoken t1 text t2 reply t3 ok s =
    synthesis_settled t3 (length (tasks s)) ok (turn_replied t1 text t2 reply s)"

text \<open>
  The component after \<open>startSession\<close>, a final transcript at time 1000 and,
  for the second state, the reply at time 2000.
\<close>

definition processing_example :: orchestrator where
  "processing_example = handleTranscript 1000 (ascii ''hi'') True (startSession (mounted 0))"

definition speaking_example :: orchestrator where
  "speaking_example = reply_settled 2000 0 (Inr (ascii ''ok'')) processing_example"

text \<open>
  Two turns in flight at once. In \<open>speaking_example\<close> the first turn waits for
  its synthesis; a second final transcript arrives at time 2100 and its reply
  at 2200. The synthesis of the first turn settles at 3000, that of the second
  at 3150.
\<close>

definition two_turns_speaking :: orchestrator where
  "two_turns_speaking =
    reply_settled 2200 1 (Inr (ascii ''sure''))
      (handleTranscript 2100 (ascii ''and'') True speaking_example)"

definition first_turn_spoken :: orchestrator where
  "first_turn_spoken = synthesis_settled 3000 0 True two_turns_speaking"

definition both_turns_spoken :: orchestrator where
  "both_turns_spoken = synthesis_settled 3150 0 True first_turn_spoken"

text \<open>
  One turn after the other, the second starting before the restart timer of
  the first is due: the synthesis of the first turn settles at 3000, the next
  final transcript arrives at 3100 and its reply at 3200.
\<close>

definition turn_before_restart :: orchestrator where
  "turn_before_restart =
    turn_replied 3100 (ascii ''and'') 3200 (ascii ''sure'')
      (synthesis_settled 3000 0 True speaking_example)"

text \<open>
  \<open>silence_due\<close> for a detector that starts with its latch at \<open>heard\<close> and its
  last loud sample at time \<open>since\<close>; \<open>silence_due\<close> is the case of a latch
  that is not set.
\<close>

definition due_from :: "bool \<Rightarrow> int \<Rightarrow> real \<Rightarrow> real \<Rightarrow> (int \<times> real) list \<Rightarrow> nat \<Rightarrow> bool" where
  "due_from heard since threshold duration polls k \<longleftrightarrow>
    (case filter (\<lambda>p. snd p > threshold) (take (Suc k) polls) of
       [] \<Rightarrow> heard \<and> real_of_int (fst (polls ! k) - since) \<ge> duration
     | l # ls \<Rightarrow> real_of_int (fst (polls ! k) - fst (last (l # ls))) \<ge> duration)"

text \<open>The silence-detection fields as the constructor leaves them at time \<open>now\<close>.\<close>

definition detector_constructed :: "int \<Rightarrow> silence_detector" where
  "detector_constructed now =
    \<lparr>silenceThreshold = 0.08, silenceDuration = 3500, lastSoundTime = now,
     hasDetectedSound = False, onSilenceDetected = False, silenceCheckIntervalId = None,
     intervals = [], nextIntervalId = 1, callbacks = []\<rparr>"

text \<open>
  A detector on which \<open>startSilenceDetection\<close> was called twice with no
  \<open>stopSilenceDetection\<close> between: two intervals run, and the id of the first
  is lost.
\<close>

definition detector_restarted :: silence_detector where
  "detector_restarted =
    startSilenceDetection 0.03 300 0 (startSilenceDetection 0.03 300 0 (detector_constructed 0))"

text \<open>A result event with one result of two alternatives.\<close>

definition heard_example :: speech_event where
  "heard_example = \<lparr>resultIndex = 0, results = [[ascii ''hello there'', ascii ''hello their'']]\<rparr>"

text \<open>Final transcripts delivered one after the other, each with its time.\<close>

definition deliver_finals :: "(int \<times> jsstring) list \<Rightarrow> orchestrator \<Rightarrow> orchestrator" where
  "deliver_finals events s = fold (\<lambda>(now, text). handleTranscript now text True) events s"


section \<open>Lemmas about double rounding\<close>

lemma round_half_even_le: "y \<le> of_int k \<Longrightarrow> round_half_even y \<le> k"
  unfolding round_half_even_def Let_def by (auto; linarith)

lemma round_half_even_ge: "of_int k \<le> y \<Longrightarrow> k \<le> round_half_even y"
  unfolding round_half_even_def Let_def by (auto; linarith)

lemma round_half_even_above: "of_int k + 1 / 2 < y \<Longrightarrow> k < round_half_even y"
  unfolding round_half_even_def Let_def by (auto; linarith)

lemma round_half_even_below: "y < of_int k + 1 / 2 \<Longrightarrow> round_half_even y \<le> k"
  unfolding round_half_even_def Let_def by (auto; linarith)

lemma binade:
  assumes "0 < x"
  shows "2 powr of_int \<lfloor>log 2 x\<rfloor> \<le> x" "x < 2 powr (of_int \<lfloor>log 2 x\<rfloor> + 1)"
  using floor_log_eq_powr_iff[of x 2 "\<lfloor>log 2 x\<rfloor>"] assms by simp_all

lemma double_of_bounds:
  assumes "0 < x"
  shows "2 powr of_int \<lfloor>log 2 x\<rfloor> \<le> double_of x"
    and "double_of x \<le> 2 powr (of_int \<lfloor>log 2 x\<rfloor> + 1)"
proof -
  let ?e = "\<lfloor>log 2 x\<rfloor>"
  let ?q = "2 powr (of_int (?e - 52)) :: real"
  have q: "0 < ?q" by simp
  have lo: "2 powr of_int ?e = 2 ^ 52 * ?q"
    by (simp add: powr_diff)
  have hi: "2 powr (of_int ?e + 1) = 2 ^ 53 * ?q"
    by (simp add: powr_diff powr_add)
  have "2 ^ 52 * ?q \<le> x" using binade(1)[OF assms] lo by simp
  then have "of_int (2 ^ 52) \<le> x / ?q" using q by (simp add: pos_le_divide_eq)
  then have a: "2 ^ 52 \<le> round_half_even (x / ?q)" by (rule round_half_even_ge)
  have "x < 2 ^ 53 * ?q" using binade(2)[OF assms] hi by simp
  then have "x / ?q \<le> of_int (2 ^ 53)" using q by (simp add: pos_divide_le_eq)
  then have b: "round_half_even (x / ?q) \<le> 2 ^ 53" by (rule round_half_even_le)
  have "2 ^ 52 * ?q \<le> of_int (round_half_even (x / ?q)) * ?q"
    using a q by (intro mult_right_mono) (simp_all add: of_int_le_iff[symmetric] del: of_int_le_iff)
  then show "2 powr of_int ?e \<le> double_of x" by (simp add: double_of_def Let_def lo)
  have "of_int (round_half_even (x / ?q)) * ?q \<le> 2 ^ 53 * ?q"
    using b q by (intro mult_right_mono) (simp_all add: of_int_le_iff[symmetric] del: of_int_le_iff)
  then show "double_of x \<le> 2 powr (of_int ?e + 1)" by (simp add: double_of_def Let_def hi)
qed


lemma quarter: "(2::real) powr (- 2) = 1 / 4" "(2::real) powr (- 1) = 1 / 2"
  by (simp_all add: powr_minus_divide)

lemma double_of_in_binade:
  assumes "1 / 4 \<le> x" "x < 1 / 2"
  shows "double_of x = of_int (round_half_even (x * 2 ^ 54)) / 2 ^ 54"
proof -
  have "\<lfloor>log 2 x\<rfloor> = - 2"
    using assms floor_log_eq_powr_iff[of x 2 "- 2"] by (simp add: quarter)
  then show ?thesis
    by (simp add: double_of_def Let_def powr_minus_divide)
qed

lemma double_of_small:
  assumes "0 < x" "x < 1 / 4"
  shows "double_of x \<le> 1 / 4"
proof -
  let ?e = "\<lfloor>log 2 x\<rfloor>"
  have "?e + 1 \<le> - 2"
  proof (rule ccontr)
    assume "\<not> ?e + 1 \<le> - 2"
    then have "(- 2 :: real) \<le> of_int ?e" by linarith
    then have "(2::real) powr (- 2) \<le> 2 powr of_int ?e" by (intro powr_mono) simp_all
    with binade(1)[OF assms(1)] assms(2) show False by (simp add: quarter)
  qed
  then have "of_int ?e + 1 \<le> (- 2 :: real)" by linarith
  then have "(2::real) powr (of_int ?e + 1) \<le> 2 powr (- 2)" by (intro powr_mono) simp_all
  then have "(2::real) powr (of_int ?e + 1) \<le> 1 / 4" by (simp only: quarter)
  with double_of_bounds(2)[OF assms(1)] show ?thesis by linarith
qed

lemma double_of_large:
  assumes "1 / 2 \<le> x"
  shows "1 / 2 \<le> double_of x"
proof -
  let ?e = "\<lfloor>log 2 x\<rfloor>"
  have x: "0 < x" using assms by simp
  have "- 1 \<le> ?e"
  proof (rule ccontr)
    assume "\<not> - 1 \<le> ?e"
    then have "of_int ?e + 1 \<le> (- 1 :: real)" by linarith
    then have "(2::real) powr (of_int ?e + 1) \<le> 2 powr (- 1)" by (intro powr_mono) simp_all
    with binade(2)[OF x] assms show False by (simp add: quarter)
  qed
  then have "(- 1 :: real) \<le> of_int ?e" by linarith
  then have "(2::real) powr (- 1) \<le> 2 powr of_int ?e" by (intro powr_mono) simp_all
  then have "1 / 2 \<le> (2::real) powr of_int ?e" by (simp only: quarter)
  with double_of_bounds(1)[OF x] show ?thesis by linarith
qed

lemma double_of_three_tenths: "double_of (3 / 10) = 5404319552844595 / 2 ^ 54"
proof -
  have "round_half_even (3 / 10 * 2 ^ 54) = 5404319552844595"
  proof -
    have f: "\<lfloor>3 / 10 * 2 ^ 54 :: real\<rfloor> = 5404319552844595" by (simp add: floor_eq_iff)
    show ?thesis unfolding round_half_even_def Let_def f by simp
  qed
  then show ?thesis using double_of_in_binade[of "3 / 10"] by simp
qed

lemma double_quotient_gt_three_tenths:
  assumes "0 < c" "c \<le> n" "n < 2 ^ 50"
  shows "double_of (real c / real n) > double_of (3 / 10) \<longleftrightarrow> real c / real n > 3 / 10"
proof -
  let ?x = "real c / real n"
  let ?d = "5404319552844595 / 2 ^ 54 :: real"
  have n: "0 < real n" using assms by simp
  have x: "0 < ?x" using assms by simp
  show ?thesis
  proof (cases "?x > 3 / 10")
    case gt: True
    then have "3 * real n < 10 * real c" using n by (simp add: pos_less_divide_eq)
    then have "3 * n < 10 * c" by (simp only: of_nat_less_iff[where ?'a = real, symmetric] of_nat_mult of_nat_numeral)
    then have "3 * n + 1 \<le> 10 * c" by simp
    then have "3 * real n + 1 \<le> 10 * real c"
      by (simp only: of_nat_le_iff[where ?'a = real, symmetric] of_nat_mult of_nat_add of_nat_numeral of_nat_1)
    then have "(3 * real n + 1) / (10 * real n) \<le> (10 * real c) / (10 * real n)"
      using n by (intro divide_right_mono) simp_all
    then have gap: "3 / 10 + 1 / (10 * real n) \<le> ?x"
      using n by (simp add: add_divide_distrib)
    have "real n < 2 ^ 50"
      using assms(3) by (simp only: of_nat_less_iff[where ?'a = real, symmetric] of_nat_power of_nat_numeral)
    then have "1 / (10 * 2 ^ 50) < 1 / (10 * real n)" using n by (simp add: field_simps)
    with gap have far: "3 / 10 + 1 / (10 * 2 ^ 50) < ?x" by linarith
    have "?d < double_of ?x"
    proof (cases "?x < 1 / 2")
      case True
      have b: "1 / 4 \<le> ?x" "?x < 1 / 2" using gt True by linarith+
      have "(3 / 10 + 1 / (10 * 2 ^ 50)) * 2 ^ 54 < ?x * 2 ^ 54"
        using far by (intro mult_strict_right_mono) simp_all
      moreover have "of_int 5404319552844596 + 1 / 2 < (3 / 10 + 1 / (10 * 2 ^ 50)) * (2 ^ 54 :: real)"
        by simp
      ultimately have "of_int 5404319552844596 + 1 / 2 < ?x * 2 ^ 54" by linarith
      then have "5404319552844596 < round_half_even (?x * 2 ^ 54)" by (rule round_half_even_above)
      then have "(5404319552844595 :: real) < of_int (round_half_even (?x * 2 ^ 54))" by linarith
      then show ?thesis unfolding double_of_in_binade[OF b] by (simp add: divide_strict_right_mono)
    next
      case False
      then have "1 / 2 \<le> double_of ?x" using double_of_large[of ?x] by simp
      then show ?thesis by simp
    qed
    with gt show ?thesis by (simp add: double_of_three_tenths)
  next
    case le: False
    have "double_of ?x \<le> ?d"
    proof (cases "?x < 1 / 4")
      case True
      then have "double_of ?x \<le> 1 / 4" using double_of_small[OF x] by simp
      then show ?thesis by simp
    next
      case False
      have b: "1 / 4 \<le> ?x" "?x < 1 / 2" using le False by linarith+
      have "?x * 2 ^ 54 \<le> 3 / 10 * 2 ^ 54"
        using le by (intro mult_right_mono) simp_all
      moreover have "3 / 10 * (2 ^ 54 :: real) < of_int 5404319552844595 + 1 / 2" by simp
      ultimately have "?x * 2 ^ 54 < of_int 5404319552844595 + 1 / 2" by linarith
      then have "round_half_even (?x * 2 ^ 54) \<le> 5404319552844595" by (rule round_half_even_below)
      then have "of_int (round_half_even (?x * 2 ^ 54)) \<le> (5404319552844595 :: real)" by linarith
      then show ?thesis unfolding double_of_in_binade[OF b] by (simp add: divide_right_mono)
    qed
    with le show ?thesis by (simp add: double_of_three_tenths)
  qed
qed

section \<open>Lemmas about reply generation\<close>

lemma detectLanguage_with_doubles:
  assumes "length text < 2 ^ 50"
  shows "detectLanguage text =
    (case js_match chineseCharRegex text of
       None \<Rightarrow> en_US
     | Some chineseChars \<Rightarrow>
         if double_of (real (length chineseChars) / real (length text)) > double_of (3 / 10)
         then zh_CN else en_US)"
proof (cases "js_match chineseCharRegex text")
  case None
  then show ?thesis by (simp add: detectLanguage_def)
next
  case (Some chineseChars)
  then have cs: "chineseChars = filter chineseCharRegex text" "chineseChars \<noteq> []"
    by (auto simp: js_match_def Let_def split: if_splits)
  then have "0 < length chineseChars" "length chineseChars \<le> length text"
    by simp_all
  from double_quotient_gt_three_tenths[OF this assms] Some show ?thesis
    by (simp add: detectLanguage_def)
qed

lemma empatheticResponsesEN_nonempty: "r \<in> set empatheticResponsesEN \<Longrightarrow> r \<noteq> []"
  by (auto simp: empatheticResponsesEN_def ascii_def)

lemma empatheticResponsesCN_nonempty: "r \<in> set empatheticResponsesCN \<Longrightarrow> r \<noteq> []"
  by (auto simp: empatheticResponsesCN_def)

lemma canned_responses_nonempty: "r \<in> set (canned_responses l) \<Longrightarrow> r \<noteq> []"
  by (cases l)
    (auto simp: canned_responses_def dest: empatheticResponsesEN_nonempty empatheticResponsesCN_nonempty)

lemma length_canned_responses: "length (canned_responses l) = 7"
  by (simp add: canned_responses_def empatheticResponsesEN_def empatheticResponsesCN_def)

lemma js_index_floor:
  assumes "0 \<le> rnd" "rnd < 1" "xs \<noteq> []"
  shows "\<exists>r. js_index xs \<lfloor>rnd * real (length xs)\<rfloor> = Some r \<and> r \<in> set xs"
proof -
  let ?n = "real (length xs)"
  have n: "0 < ?n" using assms(3) by simp
  have lo: "0 \<le> \<lfloor>rnd * ?n\<rfloor>" using assms(1) n by simp
  have "rnd * ?n < ?n" using assms(2) n by simp
  then have hi: "\<lfloor>rnd * ?n\<rfloor> < int (length xs)" by (simp add: floor_less_iff)
  then have "nat \<lfloor>rnd * ?n\<rfloor> < length xs" using lo by linarith
  then show ?thesis using lo hi by (simp add: js_index_def)
qed

lemma generateReply_catch_canned:
  assumes "0 \<le> rnd" "rnd < 1"
  shows "\<exists>r. generateReply_catch rnd prompt = Some r \<and> r \<noteq> [] \<and>
             r \<in> set (canned_responses (detectLanguage prompt))"
proof -
  have ne: "canned_responses (detectLanguage prompt) \<noteq> []"
    using length_canned_responses[of "detectLanguage prompt"] by auto
  from js_index_floor[OF assms ne] obtain r where
    "js_index (canned_responses (detectLanguage prompt))
       \<lfloor>rnd * real (length (canned_responses (detectLanguage prompt)))\<rfloor> = Some r"
    "r \<in> set (canned_responses (detectLanguage prompt))" by blast
  then show ?thesis
    by (auto simp: generateReply_catch_def Let_def dest: canned_responses_nonempty)
qed

lemma generateReply_try_failed: "fetch_failed f \<Longrightarrow> \<exists>e. generateReply_try f = Inl e"
  by (auto simp: fetch_failed_def generateReply_try_def split: fetch_result.splits)

lemma not_truthy_None: "\<not> truthy None"
  by (simp add: truthy_def)

lemma tryOpenAI_failed:
  assumes "provider_failed chatRes" "provider_failed respRes"
  shows "tryOpenAI env chatRes respRes = Inr None \<or> tryOpenAI env chatRes respRes = Inl ()"
  using assms
  by (cases chatRes; cases respRes) (simp_all add: provider_failed_def tryOpenAI_def Let_def)

lemma tryGroq_failed:
  assumes "provider_failed groqRes"
  shows "tryGroq env groqRes = Inr None \<or> tryGroq env groqRes = Inl ()"
  using assms by (cases groqRes) (simp_all add: provider_failed_def tryGroq_def)

lemma or_else_failed:
  assumes "a = Inr None \<or> a = Inl ()" "b = Inr None \<or> b = Inl ()"
  shows "or_else a b = Inr None \<or> or_else a b = Inl ()"
  using assms by (auto simp: or_else_def not_truthy_None)

lemma POST_all_failed:
  assumes "provider_failed chatRes" "provider_failed respRes" "provider_failed groqRes"
  shows "fetch_failed (POST env chatRes respRes groqRes)"
proof -
  let ?o = "tryOpenAI env chatRes respRes" and ?g = "tryGroq env groqRes"
  have o: "?o = Inr None \<or> ?o = Inl ()" by (rule tryOpenAI_failed[OF assms(1,2)])
  have g: "?g = Inr None \<or> ?g = Inl ()" by (rule tryGroq_failed[OF assms(3)])
  have og: "or_else ?o ?g = Inr None \<or> or_else ?o ?g = Inl ()" by (rule or_else_failed[OF o g])
  have go: "or_else ?g ?o = Inr None \<or> or_else ?g ?o = Inl ()" by (rule or_else_failed[OF g o])
  have "POST_try env chatRes respRes groqRes = Inl () \<or>
        POST_try env chatRes respRes groqRes = Inr (Response 429 (Json None))"
    using og go by (auto simp: POST_try_def not_truthy_None)
  then show ?thesis
    by (auto simp: POST_def fetch_failed_def response_ok_def)
qed

lemma POST_cases:
  "fetch_failed (POST env chatRes respRes groqRes) \<or>
   (\<exists>t. t \<noteq> [] \<and> POST env chatRes respRes groqRes = Response 200 (Json (Some t)))"
  by (auto simp: POST_def POST_try_def fetch_failed_def response_ok_def truthy_def
        split: sum.splits option.splits)

lemma generateReply_ok:
  "generateReply (Response 200 (Json (Some t))) rnd prompt = Inr (Some t)"
  by (simp add: generateReply_def generateReply_try_def response_ok_def)

lemma detectLanguage_ascii_hello: "detectLanguage (ascii ''hello'') = en_US"
  by (simp add: detectLanguage_def js_match_def chineseCharRegex_def ascii_def)






section \<open>Lemmas about the orchestrator\<close>


lemma user_entry_update_first:
  "user_entry_update t f prev =
     (if prev \<noteq> [] \<and> fst (last prev) = User then butlast prev else prev) @
     [(User, if f then t else t @ interim_suffix)]"
  by (simp add: user_entry_update_def Let_def)


lemma handleTranscript_final:
  "handleTranscript now text True s =
     s\<lparr>latency := now - lastMessageTime s, lastMessageTime := now, userSubtitle := text,
       transcripts := user_entry_update text True (transcripts s), phase := Processing,
       isGenerating := True, tasks := tasks s @ [AwaitingReply text],
       trace := trace s @ [SetPhase Processing, CallGenerateReply text]\<rparr>"
  by (simp add: handleTranscript_def generateAndSpeak_start_def Let_def)

lemma deliver_finals_snoc:
  "deliver_finals (events @ [(now, text)]) s = handleTranscript now text True (deliver_finals events s)"
  by (simp add: deliver_finals_def)

lemma tasks_deliver_finals:
  "tasks (deliver_finals events s) = tasks s @ map (\<lambda>(now, text). AwaitingReply text) events"
proof (induction events rule: rev_induct)
  case Nil
  then show ?case by (simp add: deliver_finals_def)
next
  case (snoc e events)
  obtain now utterance where e: "e = (now, utterance)" by (cases e)
  show ?case unfolding e deliver_finals_snoc using snoc.IH
    by (simp add: handleTranscript_final)
qed

lemma turn_replied_eq:
  assumes "ttsClientRef s \<noteq> None"
  shows "turn_replied t1 text t2 reply s =
     s\<lparr>latency := t1 - lastMessageTime s, lastMessageTime := t1, userSubtitle := text,
       transcripts := user_entry_update text True (transcripts s) @ [(Assistant, reply)],
       phase := Speaking, isGenerating := True, assistantFeedback := reply,
       ttsClientRef := Some (voice_for (detectLanguage reply)),
       tasks := tasks s @ [AwaitingSynthesis reply],
       trace := trace s @ [SetPhase Processing, CallGenerateReply text, SetPhase Speaking,
                  CallSynthesizeAndPlay (voice_for (detectLanguage reply)) reply]\<rparr>"
  using assms
  by (auto simp add: turn_replied_def handleTranscript_final reply_settled_def Let_def)

lemma remove_task_last: "remove_task (length ts) (ts @ [t]) = ts"
  by (simp add: remove_task_def)

lemma turn_spoken_eq:
  assumes "ttsClientRef s \<noteq> None" "clientRef s \<noteq> None"
  shows "turn_spoken t1 text t2 reply t3 ok s =
     s\<lparr>latency := t1 - lastMessageTime s, lastMessageTime := t1, userSubtitle := text,
       transcripts := user_entry_update text True (transcripts s) @
          [(Assistant, if ok then reply else reply @ ascii '' (audio failed)'')],
       phase := Idle, isGenerating := False, assistantFeedback := reply,
       ttsClientRef := Some (voice_for (detectLanguage reply)),
       clientRef := Some False,
       tasks := tasks s,
       timers := timers s @ [t3 + 500],
       trace := trace s @ [SetPhase Processing, CallGenerateReply text, SetPhase Speaking,
                  CallSynthesizeAndPlay (voice_for (detectLanguage reply)) reply,
                  SetPhase Idle, Disconnect, SetTimeout 500]\<rparr>"
  using assms
  by (auto simp add: turn_spoken_def turn_replied_eq synthesis_settled_def Let_def
       generateAndSpeak_finally_def remove_task_last)

lemma turn_generation_failed_eq:
  assumes "clientRef s \<noteq> None"
  shows "emitted s (reply_settled t2 (length (tasks s)) (Inl e) (handleTranscript t1 text True s))
           = [SetPhase Processing, CallGenerateReply text, SetPhase Idle, Disconnect, SetTimeout 500]"
    and "phase (reply_settled t2 (length (tasks s)) (Inl e) (handleTranscript t1 text True s)) = Idle"
  using assms
  by (auto simp add: handleTranscript_final reply_settled_def Let_def emitted_def
       generateAndSpeak_finally_def remove_task_last)

lemma precedes_at:
  "i < length tr \<Longrightarrow> tr ! i = a \<Longrightarrow> b \<in> set (drop (Suc i) tr) \<Longrightarrow> precedes a b tr"
  unfolding precedes_def by blast

lemma timers_fire_single:
  assumes "timers s = [t]" "clientRef s = Some c"
  shows "emitted s (timers_fire now s) = (if t \<le> now then [Connect] else [])"
    and "clientRef (timers_fire now s) = (if t \<le> now then Some True else Some c)"
  using assms by (simp_all add: timers_fire_def emitted_def Let_def)

lemma started_session:
  "ttsClientRef (startSession (mounted 0)) \<noteq> None"
  "clientRef (startSession (mounted 0)) \<noteq> None"
  "timers (startSession (mounted 0)) = []"
  "tasks (startSession (mounted 0)) = []"
  by (simp_all add: startSession_def mounted_def)

lemma processing_example_eq:
  "processing_example =
    \<lparr>phase = Processing, transcripts = [(User, ascii ''hi'')], latency = 1000,
     lastMessageTime = 1000, userSubtitle = ascii ''hi'', assistantFeedback = [],
     isGenerating = True, ttsClientRef = Some (ascii ''en-US-JennyNeural''),
     clientRef = Some True, tasks = [AwaitingReply (ascii ''hi'')], timers = [],
     trace = [Connect, SetPhase Processing, CallGenerateReply (ascii ''hi'')]\<rparr>"
  by (simp add: processing_example_def handleTranscript_def startSession_def mounted_def
      generateAndSpeak_start_def user_entry_update_def Let_def)

lemma speaking_example_eq:
  "speaking_example =
    \<lparr>phase = Speaking, transcripts = [(User, ascii ''hi''), (Assistant, ascii ''ok'')],
     latency = 1000, lastMessageTime = 1000, userSubtitle = ascii ''hi'',
     assistantFeedback = ascii ''ok'', isGenerating = True,
     ttsClientRef = Some (ascii ''en-US-JennyNeural''), clientRef = Some True,
     tasks = [AwaitingSynthesis (ascii ''ok'')], timers = [],
     trace = [Connect, SetPhase Processing, CallGenerateReply (ascii ''hi''), SetPhase Speaking,
        CallSynthesizeAndPlay (ascii ''en-US-JennyNeural'') (ascii ''ok'')]\<rparr>"
  unfolding speaking_example_def processing_example_eq
  by (simp add: reply_settled_def Let_def voice_for_def detectLanguage_def js_match_def
       chineseCharRegex_def ascii_def)

lemma voice_for_sure: "voice_for (detectLanguage (ascii ''sure'')) = ascii ''en-US-JennyNeural''"
  by (simp add: voice_for_def detectLanguage_def js_match_def chineseCharRegex_def ascii_def)

lemma two_turns_speaking_eq:
  "two_turns_speaking =
    \<lparr>phase = Speaking,
     transcripts = [(User, ascii ''hi''), (Assistant, ascii ''ok''), (User, ascii ''and''),
        (Assistant, ascii ''sure'')],
     latency = 1100, lastMessageTime = 2100, userSubtitle = ascii ''and'',
     assistantFeedback = ascii ''sure'', isGenerating = True,
     ttsClientRef = Some (ascii ''en-US-JennyNeural''), clientRef = Some True,
     tasks = [AwaitingSynthesis (ascii ''ok''), AwaitingSynthesis (ascii ''sure'')], timers = [],
     trace = [Connect, SetPhase Processing, CallGenerateReply (ascii ''hi''), SetPhase Speaking,
        CallSynthesizeAndPlay (ascii ''en-US-JennyNeural'') (ascii ''ok''),
        SetPhase Processing, CallGenerateReply (ascii ''and''), SetPhase Speaking,
        CallSynthesizeAndPlay (ascii ''en-US-JennyNeural'') (ascii ''sure'')]\<rparr>"
  unfolding two_turns_speaking_def speaking_example_eq
  by (simp add: handleTranscript_final reply_settled_def Let_def voice_for_sure
      user_entry_update_def)

lemma first_turn_spoken_eq:
  "first_turn_spoken =
    \<lparr>phase = Idle,
     transcripts = [(User, ascii ''hi''), (Assistant, ascii ''ok''), (User, ascii ''and''),
        (Assistant, ascii ''sure'')],
     latency = 1100, lastMessageTime = 2100, userSubtitle = ascii ''and'',
     assistantFeedback = ascii ''sure'', isGenerating = False,
     ttsClientRef = Some (ascii ''en-US-JennyNeural''), clientRef = Some False,
     tasks = [AwaitingSynthesis (ascii ''sure'')], timers = [3500],
     trace = [Connect, SetPhase Processing, CallGenerateReply (ascii ''hi''), SetPhase Speaking,
        CallSynthesizeAndPlay (ascii ''en-US-JennyNeural'') (ascii ''ok''),
        SetPhase Processing, CallGenerateReply (ascii ''and''), SetPhase Speaking,
        CallSynthesizeAndPlay (ascii ''en-US-JennyNeural'') (ascii ''sure''),
        SetPhase Idle, Disconnect, SetTimeout 500]\<rparr>"
  unfolding first_turn_spoken_def two_turns_speaking_eq
  by (simp add: synthesis_settled_def generateAndSpeak_finally_def remove_task_def Let_def)

lemma both_turns_spoken_eq:
  "both_turns_spoken =
    \<lparr>phase = Idle,
     transcripts = [(User, ascii ''hi''), (Assistant, ascii ''ok''), (User, ascii ''and''),
        (Assistant, ascii ''sure'')],
     latency = 1100, lastMessageTime = 2100, userSubtitle = ascii ''and'',
     assistantFeedback = ascii ''sure'', isGenerating = False,
     ttsClientRef = Some (ascii ''en-US-JennyNeural''), clientRef = Some False,
     tasks = [], timers = [3500, 3650],
     trace = [Connect, SetPhase Processing, CallGenerateReply (ascii ''hi''), SetPhase Speaking,
        CallSynthesizeAndPlay (ascii ''en-US-JennyNeural'') (ascii ''ok''),
        SetPhase Processing, CallGenerateReply (ascii ''and''), SetPhase Speaking,
        CallSynthesizeAndPlay (ascii ''en-US-JennyNeural'') (ascii ''sure''),
        SetPhase Idle, Disconnect, SetTimeout 500, SetPhase Idle, Disconnect, SetTimeout 500]\<rparr>"
  unfolding both_turns_spoken_def first_turn_spoken_eq
  by (simp add: synthesis_settled_def generateAndSpeak_finally_def remove_task_def Let_def)

lemma turn_before_restart_eq:
  "turn_before_restart =
    \<lparr>phase = Speaking,
     transcripts = [(User, ascii ''hi''), (Assistant, ascii ''ok''), (User, ascii ''and''),
        (Assistant, ascii ''sure'')],
     latency = 2100, lastMessageTime = 3100, userSubtitle = ascii ''and'',
     assistantFeedback = ascii ''sure'', isGenerating = True,
     ttsClientRef = Some (ascii ''en-US-JennyNeural''), clientRef = Some False,
     tasks = [AwaitingSynthesis (ascii ''sure'')], timers = [3500],
     trace = [Connect, SetPhase Processing, CallGenerateReply (ascii ''hi''), SetPhase Speaking,
        CallSynthesizeAndPlay (ascii ''en-US-JennyNeural'') (ascii ''ok''),
        SetPhase Idle, Disconnect, SetTimeout 500,
        SetPhase Processing, CallGenerateReply (ascii ''and''), SetPhase Speaking,
        CallSynthesizeAndPlay (ascii ''en-US-JennyNeural'') (ascii ''sure'')]\<rparr>"
  unfolding turn_before_restart_def speaking_example_eq
  by (simp add: turn_replied_def handleTranscript_final reply_settled_def
      synthesis_settled_def generateAndSpeak_finally_def remove_task_def Let_def voice_for_sure
      user_entry_update_def)

lemma synthesis_called_only_on_reply:
  assumes "CallSynthesizeAndPlay v r \<in> set (emitted u (reply_settled now k outcome u))"
  shows "outcome = Inr r \<and> k < length (tasks u) \<and> (\<exists>prompt. tasks u ! k = AwaitingReply prompt)
       \<and> v = voice_for (detectLanguage r)
       \<and> emitted u (reply_settled now k outcome u) = [SetPhase Speaking, CallSynthesizeAndPlay v r]
       \<and> phase (reply_settled now k outcome u) = Speaking"
  using assms
  by (auto simp add: reply_settled_def emitted_def Let_def generateAndSpeak_finally_def
      split: if_splits task.splits sum.splits option.splits)

lemma no_synthesis_elsewhere:
  "CallSynthesizeAndPlay v r \<notin> set (emitted u (handleTranscript now utterance isFinal u))"
  "CallSynthesizeAndPlay v r \<notin> set (emitted u (synthesis_settled now k ok u))"
  "CallSynthesizeAndPlay v r \<notin> set (emitted u (timers_fire now u))"
  by (auto simp add: handleTranscript_def generateAndSpeak_start_def synthesis_settled_def
      timers_fire_def emitted_def Let_def generateAndSpeak_finally_def
      split: if_splits task.splits option.splits)

lemma synthesis_settled_step:
  assumes "k < length (tasks u)" "tasks u ! k = AwaitingSynthesis r" "clientRef u \<noteq> None"
  shows "emitted u (synthesis_settled now k ok u) = [SetPhase Idle, Disconnect, SetTimeout 500]"
    "phase (synthesis_settled now k ok u) = Idle"
    "timers (synthesis_settled now k ok u) = timers u @ [now + 500]"
  using assms
  by (auto simp add: synthesis_settled_def emitted_def Let_def generateAndSpeak_finally_def)

lemma connect_only_by_timer:
  "Connect \<in> set (emitted u (timers_fire now u)) \<longleftrightarrow>
     clientRef u \<noteq> None \<and> (\<exists>t \<in> set (timers u). t \<le> now)"
  by (auto simp add: timers_fire_def emitted_def Let_def filter_empty_conv)

lemma no_connect_elsewhere:
  "Connect \<notin> set (emitted u (handleTranscript now utterance isFinal u))"
  "Connect \<notin> set (emitted u (reply_settled now k outcome u))"
  "Connect \<notin> set (emitted u (synthesis_settled now k ok u))"
  by (auto simp add: handleTranscript_def generateAndSpeak_start_def reply_settled_def
      synthesis_settled_def emitted_def Let_def generateAndSpeak_finally_def
      split: if_splits task.splits option.splits sum.splits)

lemma onresult_calls:
  "onresult event = Inr calls \<Longrightarrow>
     calls = [] \<or> (\<exists>text. text \<noteq> [] \<and> calls = [(text, True)])"
  by (auto simp: onresult_def Let_def split: sum.splits if_splits)

lemma emitted_same: "emitted s s = []"
  by (simp add: emitted_def)

lemma recognition_result_cases:
  "recognition_result now event s = s
   \<or> (\<exists>text. text \<noteq> [] \<and> recognition_result now event s = handleTranscript now text True s)"
proof (cases "onresult event")
  case (Inl e)
  then show ?thesis by (simp add: recognition_result_def)
next
  case (Inr calls)
  from onresult_calls[OF this] show ?thesis
    by (auto simp: recognition_result_def Inr)
qed

lemma onresult_heard_example: "onresult heard_example = Inr [(ascii ''hello there'', True)]"
  by (simp add: onresult_def collect_transcripts_def heard_example_def js_trim_def
       js_whitespace_def ascii_def Let_def)

section \<open>Lemmas about visual feedback\<close>

lemma renders_append: "renders (xs @ ys) v = renders ys (renders xs v)"
  by (simp add: renders_def)

lemma renders_Cons: "renders ((ph, a) # xs) v = renders xs (feedback_effect ph a v)"
  by (simp add: renders_def)

lemma renders_Nil: "renders [] v = v"
  by (simp add: renders_def)

lemma feedback_effect_not_listening:
  assumes "ph \<noteq> Listening"
  shows "lastListeningAudioRef (feedback_effect ph a v) = lastListeningAudioRef v"
    and "lastListeningBrightnessRef (feedback_effect ph a v) = lastListeningBrightnessRef v"
    and "lastListeningBloomRef (feedback_effect ph a v) = lastListeningBloomRef v"
    and "prevVisualPhaseRef (feedback_effect ph a v) = prevVisualPhaseRef v"
  using assms by (simp_all add: feedback_effect_def)

lemma feedback_effect_listening:
  "lastListeningAudioRef (feedback_effect Listening a v) = a"
  "lastListeningBrightnessRef (feedback_effect Listening a v) = 1.0 + a * 2.0"
  "lastListeningBloomRef (feedback_effect Listening a v) = 1.5 + a * 4.5"
  "brightness (feedback_effect Listening a v) = 1.0 + a * 2.0"
  "bloom (feedback_effect Listening a v) = 1.5 + a * 4.5"
  by (simp_all add: feedback_effect_def Let_def)

lemma feedback_effect_idem:
  "feedback_effect ph a (feedback_effect ph a v) = feedback_effect ph a v"
  by (simp add: feedback_effect_def Let_def)

lemma renders_not_listening:
  assumes "\<forall>(q, a) \<in> set later. q \<noteq> Listening"
  shows "lastListeningAudioRef (renders later v) = lastListeningAudioRef v
       \<and> lastListeningBrightnessRef (renders later v) = lastListeningBrightnessRef v
       \<and> lastListeningBloomRef (renders later v) = lastListeningBloomRef v"
  using assms
proof (induction later arbitrary: v)
  case Nil
  then show ?case by (simp add: renders_Nil)
next
  case (Cons r later)
  obtain q a where r: "r = (q, a)" by (cases r)
  with Cons.prems have q: "q \<noteq> Listening" and rest: "\<forall>(q, a) \<in> set later. q \<noteq> Listening"
    by auto
  show ?case
    unfolding r renders_Cons using Cons.IH[OF rest, of "feedback_effect q a v"]
    by (simp add: feedback_effect_not_listening[OF q])
qed

lemma renders_never_listening:
  assumes "\<forall>(q, a) \<in> set history. q \<noteq> Listening"
  shows "lastListeningAudioRef (renders history visuals_mounted) = 0"
    and "lastListeningBrightnessRef (renders history visuals_mounted) = 1.0"
    and "lastListeningBloomRef (renders history visuals_mounted) = 1.0"
  using renders_not_listening[OF assms, of visuals_mounted]
  by (simp_all add: visuals_mounted_def)

section \<open>Lemmas about silence detection\<close>

lemma silence_due_due_from:
  "silence_due threshold duration polls k = due_from False since threshold duration polls k"
  by (simp add: silence_due_def elapsed_since_loud_def due_from_def split: list.splits)

lemma due_from_0:
  "due_from heard since T D ((now, x) # polls) 0 =
     (if x > T then 0 \<ge> D else heard \<and> real_of_int (now - since) \<ge> D)"
  by (simp add: due_from_def)

lemma due_from_Suc:
  "due_from heard since T D ((now, x) # polls) (Suc j) =
     (if x > T then due_from True now T D polls j else due_from heard since T D polls j)"
  by (simp add: due_from_def split: list.splits)

lemma first_due_Cons:
  "(k < length (p # polls) \<and> P k \<and> (\<forall>i<k. \<not> P i)) \<longleftrightarrow>
     (if P 0 then k = 0
      else \<exists>j. k = Suc j \<and> j < length polls \<and> P (Suc j) \<and> (\<forall>i<j. \<not> P (Suc i)))"
proof (cases k)
  case 0
  then show ?thesis by auto
next
  case (Suc j)
  have "(\<forall>i<Suc j. \<not> P i) \<longleftrightarrow> \<not> P 0 \<and> (\<forall>i<j. \<not> P (Suc i))"
    by (auto simp: less_Suc_eq_0_disj)
  with Suc show ?thesis by auto
qed

lemma first_callback_due_from:
  assumes "0 < D" "intervals d \<noteq> []" "onSilenceDetected d"
    "silenceThreshold d = T" "silenceDuration d = D"
  shows "first_callback polls d = Some k \<longleftrightarrow>
     k < length polls \<and> due_from (hasDetectedSound d) (lastSoundTime d) T D polls k \<and>
     (\<forall>i<k. \<not> due_from (hasDetectedSound d) (lastSoundTime d) T D polls i)"
  using assms(2-)
proof (induction polls arbitrary: d k)
  case Nil
  then show ?case by simp
next
  case (Cons p polls)
  obtain now x where p: "p = (now, x)" by (cases p)
  let ?h = "hasDetectedSound d" and ?l = "lastSoundTime d"
  note split = first_due_Cons[of k p polls "due_from ?h ?l T D (p # polls)"]
  show ?case
  proof (cases "x > T")
    case True
    let ?d1 = "d\<lparr>hasDetectedSound := True, lastSoundTime := now\<rparr>"
    have sc: "silence_check now x d = ?d1"
      using True Cons.prems by (simp add: silence_check_def)
    have ih: "first_callback polls ?d1 = Some j \<longleftrightarrow>
       j < length polls \<and> due_from True now T D polls j \<and> (\<forall>i<j. \<not> due_from True now T D polls i)" for j
      using Cons.IH[of ?d1 j] Cons.prems by simp
    have n0: "\<not> due_from ?h ?l T D (p # polls) 0"
      using True assms(1) by (simp add: p due_from_0)
    have "first_callback (p # polls) d = Some k \<longleftrightarrow> (\<exists>j. k = Suc j \<and> first_callback polls ?d1 = Some j)"
      by (auto simp: p sc)
    also have "\<dots> \<longleftrightarrow> (\<exists>j. k = Suc j \<and> j < length polls \<and> due_from ?h ?l T D (p # polls) (Suc j) \<and>
        (\<forall>i<j. \<not> due_from ?h ?l T D (p # polls) (Suc i)))"
      using True by (simp add: ih p due_from_Suc)
    finally show ?thesis unfolding split using n0 by simp
  next
    case False
    show ?thesis
    proof (cases "?h \<and> real_of_int (now - ?l) \<ge> D")
      case fire: True
      have "length (callbacks (silence_check now x d)) > length (callbacks d)"
        using False fire Cons.prems
        by (simp add: silence_check_def stopSilenceDetection_def Let_def split: option.splits)
      then have "first_callback (p # polls) d = Some 0" by (simp add: p Let_def)
      moreover have "due_from ?h ?l T D (p # polls) 0"
        using False fire by (simp add: p due_from_0)
      ultimately show ?thesis unfolding split by auto
    next
      case quiet: False
      have sc: "silence_check now x d = d"
        using False quiet Cons.prems by (auto simp add: silence_check_def Let_def)
      have n0: "\<not> due_from ?h ?l T D (p # polls) 0"
        using False quiet by (simp add: p due_from_0)
      have "first_callback (p # polls) d = Some k \<longleftrightarrow> (\<exists>j. k = Suc j \<and> first_callback polls d = Some j)"
        by (auto simp: p sc)
      also have "\<dots> \<longleftrightarrow> (\<exists>j. k = Suc j \<and> j < length polls \<and> due_from ?h ?l T D (p # polls) (Suc j) \<and>
          (\<forall>i<j. \<not> due_from ?h ?l T D (p # polls) (Suc i)))"
        using False by (simp add: Cons.IH[OF Cons.prems] p due_from_Suc)
      finally show ?thesis unfolding split using n0 by simp
    qed
  qed
qed

lemma elapsed_since_loud_alt:
  "elapsed_since_loud T polls k =
     (let loud = filter (\<lambda>p. snd p > T) (take (Suc k) polls)
      in if loud = [] then None else Some (fst (polls ! k) - fst (last loud)))"
  by (simp add: elapsed_since_loud_def Let_def split: list.splits)

lemma silence_due_not_loud:
  assumes "0 < D" "k < length polls" "silence_due T D polls k"
  shows "\<not> snd (polls ! k) > T"
proof
  assume loud: "snd (polls ! k) > T"
  have tk: "take (Suc k) polls = take k polls @ [polls ! k]"
    using assms(2) by (simp add: take_Suc_conv_app_nth)
  have "filter (\<lambda>p. snd p > T) (take (Suc k) polls) =
          filter (\<lambda>p. snd p > T) (take k polls) @ [polls ! k]"
    unfolding tk using loud by simp
  then have "elapsed_since_loud T polls k = Some 0"
    by (simp add: elapsed_since_loud_alt)
  with assms(3) have "D \<le> 0" by (simp add: silence_due_def)
  with assms(1) show False by simp
qed

lemma silence_due_after_loud:
  assumes "0 < D" "k < length polls" "silence_due T D polls k"
  shows "\<exists>j<k. snd (polls ! j) > T"
proof -
  have quiet: "\<not> snd (polls ! k) > T" by (rule silence_due_not_loud[OF assms])
  have tk: "take (Suc k) polls = take k polls @ [polls ! k]"
    using assms(2) by (simp add: take_Suc_conv_app_nth)
  have "filter (\<lambda>p. snd p > T) (take (Suc k) polls) = filter (\<lambda>p. snd p > T) (take k polls)"
    unfolding tk using quiet by simp
  moreover have "filter (\<lambda>p. snd p > T) (take (Suc k) polls) \<noteq> []"
    using assms(3) by (auto simp: silence_due_def elapsed_since_loud_def split: list.splits)
  ultimately have "filter (\<lambda>p. snd p > T) (take k polls) \<noteq> []" by simp
  then obtain p where "p \<in> set (take k polls)" "snd p > T"
    by (auto simp: filter_empty_conv)
  then obtain j where "j < length (take k polls)" "take k polls ! j = p"
    by (auto simp: in_set_conv_nth)
  then have "j < k" "polls ! j = p" by simp_all
  with \<open>snd p > T\<close> show ?thesis by blast
qed

lemma run_polls_stopped: "intervals d = [] \<Longrightarrow> run_polls polls d = d"
  by (induction polls) (auto simp: run_polls_def silence_check_def)

lemma silence_check_single:
  assumes "intervals d = [i]" "silenceCheckIntervalId d = Some i"
  shows "(callbacks (silence_check now x d) = callbacks d \<and>
          intervals (silence_check now x d) = [i] \<and>
          silenceCheckIntervalId (silence_check now x d) = Some i)
       \<or> (callbacks (silence_check now x d) = callbacks d @ [now] \<and>
          intervals (silence_check now x d) = [])
       \<or> (callbacks (silence_check now x d) = callbacks d \<and>
          intervals (silence_check now x d) = [])"
  using assms by (simp add: silence_check_def stopSilenceDetection_def Let_def)

lemma run_polls_Cons:
  "run_polls ((now, x) # polls) d = run_polls polls (silence_check now x d)"
  by (simp add: run_polls_def)

lemma first_callback_stopped: "intervals d = [] \<Longrightarrow> first_callback polls d = None"
proof (induction polls)
  case Nil
  then show ?case by simp
next
  case (Cons p polls)
  obtain now x where p: "p = (now, x)" by (cases p)
  have "silence_check now x d = d" using Cons.prems by (simp add: silence_check_def)
  with Cons show ?case by (simp add: p)
qed

lemma callbacks_run_polls:
  assumes "intervals d = [i]" "silenceCheckIntervalId d = Some i"
  shows "callbacks (run_polls polls d) =
     (case first_callback polls d of
        None \<Rightarrow> callbacks d
      | Some k \<Rightarrow> callbacks d @ [fst (polls ! k)])"
  using assms
proof (induction polls arbitrary: d)
  case Nil
  then show ?case by (simp add: run_polls_def)
next
  case (Cons p polls)
  obtain now x where p: "p = (now, x)" by (cases p)
  let ?d1 = "silence_check now x d"
  consider (same) "callbacks ?d1 = callbacks d" "intervals ?d1 = [i]"
      "silenceCheckIntervalId ?d1 = Some i"
    | (fired) "callbacks ?d1 = callbacks d @ [now]" "intervals ?d1 = []"
    | (silent) "callbacks ?d1 = callbacks d" "intervals ?d1 = []"
    using silence_check_single[OF Cons.prems, of now x] by auto
  then show ?case
  proof cases
    case same
    then show ?thesis
      unfolding p run_polls_Cons using Cons.IH[of ?d1]
      by (simp add: Let_def split: option.splits)
  next
    case fired
    then show ?thesis
      unfolding p run_polls_Cons by (simp add: run_polls_stopped Let_def)
  next
    case silent
    then show ?thesis
      unfolding p run_polls_Cons
      by (simp add: run_polls_stopped first_callback_stopped Let_def)
  qed
qed

lemma detector_restarted_eq:
  "detector_restarted =
    \<lparr>silenceThreshold = 0.03, silenceDuration = 300, lastSoundTime = 0,
     hasDetectedSound = False, onSilenceDetected = True, silenceCheckIntervalId = Some 2,
     intervals = [1, 2], nextIntervalId = 3, callbacks = []\<rparr>"
  by (simp add: detector_restarted_def startSilenceDetection_def detector_constructed_def)

text \<open>
  The interval that a second \<open>startSilenceDetection\<close> leaves running keeps
  polling after the first callback, and calls back at every later quiet poll.
\<close>

lemma detector_restarted_calls_back_repeatedly:
  "callbacks (run_polls [(150, 0.01), (300, 0.5), (450, 0.01), (600, 0.02), (750, 0), (900, 0)]
      detector_restarted) = [600, 750, 900]"
  unfolding detector_restarted_eq
  by (simp add: run_polls_def silence_check_def stopSilenceDetection_def Let_def)

section \<open>Lemmas about audio intensity and sample conversion\<close>

lemma fold_index_sum:
  "m \<le> length xs \<Longrightarrow>
   fold (\<lambda>i sum. sum + g (xs ! i)) [0 ..< m] (a::real) = a + sum_list (map g (take m xs))"
proof (induction m)
  case 0
  then show ?case by simp
next
  case (Suc m)
  then have "take (Suc m) xs = take m xs @ [xs ! m]"
    by (simp add: take_Suc_conv_app_nth)
  with Suc show ?case by simp
qed

lemma sum_of_squares_sum_list:
  "sum_of_squares dataArray = (\<Sum>b\<leftarrow>dataArray. (real (unat b))\<^sup>2)"
  using fold_index_sum[of "length dataArray" dataArray "\<lambda>b. real (unat b) * real (unat b)" 0]
  by (simp add: sum_of_squares_def power2_eq_square)

lemma sum_list_squares_nonneg: "0 \<le> (\<Sum>b\<leftarrow>xs. (real (unat (b::8 word)))\<^sup>2)"
  by (induction xs) simp_all

lemma getAudioIntensity_empty: "getAudioIntensity [] = NaN"
  by (simp add: getAudioIntensity_def Let_def)

lemma fold_index_update:
  "m \<le> length xs \<Longrightarrow> length a = length xs \<Longrightarrow>
   fold (\<lambda>i arr. arr[i := f (xs ! i)]) [0 ..< m] a = map f (take m xs) @ drop m a"
proof (induction m)
  case 0
  then show ?case by simp
next
  case (Suc m)
  then have t: "take (Suc m) xs = take m xs @ [xs ! m]"
    by (simp add: take_Suc_conv_app_nth)
  have "(map f (take m xs) @ drop m a)[m := f (xs ! m)] = map f (take m xs) @ (drop m a)[0 := f (xs ! m)]"
    using Suc.prems by (simp add: list_update_append)
  also have "(drop m a)[0 := f (xs ! m)] = f (xs ! m) # drop (Suc m) a"
    using Suc.prems by (cases "drop m a") (auto simp: drop_Suc drop_tl list_update_code)
  finally show ?case using Suc t by simp
qed

lemma pcm16_to_float32_map:
  "pcm16_to_float32 int16Array = map (\<lambda>w. real_of_int (sint w) / 32768) int16Array"
  using fold_index_update[of "length int16Array" int16Array "replicate (length int16Array) 0"
      "\<lambda>w. real_of_int (sint w) / 32768"]
  by (simp add: pcm16_to_float32_def)

lemma float32ToPCM16_map:
  "float32ToPCM16 float32Array = map float32_sample_to_pcm16 float32Array"
  using fold_index_update[of "length float32Array" float32Array "replicate (length float32Array) 0"
      float32_sample_to_pcm16]
  by (simp add: float32ToPCM16_def)

lemma int16_view_length: "int16_view bytes = Some v \<Longrightarrow> length bytes = 2 * length v"
  by (induction bytes arbitrary: v rule: int16_view.induct) auto

lemma int16_view_odd: "int16_view bytes = None \<longleftrightarrow> odd (length bytes)"
  by (induction bytes rule: int16_view.induct) auto

lemma sint_word_of_int_16:
  "- 32768 \<le> k \<Longrightarrow> k \<le> 32767 \<Longrightarrow> sint (word_of_int k :: 16 word) = k"
  by (simp add: sint_sbintrunc' signed_take_bit_int_eq_self)

lemma sample_finite:
  "float32_sample_to_pcm16 (Num a) =
     (if a < 0 then word_of_int \<lceil>max (- 1) a * 32768\<rceil> else word_of_int \<lfloor>min 1 a * 32767\<rfloor>)"
  by (auto simp: float32_sample_to_pcm16_def Let_def truncate_toward_zero_def min_def max_def
        mult_less_0_iff)

lemma sint_sample_finite:
  "sint (float32_sample_to_pcm16 (Num a)) =
     (if a < 0 then \<lceil>max (- 1) a * 32768\<rceil> else \<lfloor>min 1 a * 32767\<rfloor>)"
proof (cases "a < 0")
  case True
  have "- 32768 \<le> max (- 1) a * 32768" "max (- 1) a * 32768 < 0" using True by (auto simp: max_def)
  then have "- 32768 \<le> \<lceil>max (- 1) a * 32768\<rceil>" "\<lceil>max (- 1) a * 32768\<rceil> \<le> 32767"
    by (simp_all add: le_ceiling_iff ceiling_le_iff)
  then show ?thesis using True by (simp add: sample_finite sint_word_of_int_16)
next
  case False
  have "0 \<le> min 1 a * 32767" "min 1 a * 32767 \<le> 32767" using False by (auto simp: min_def)
  then have "- 32768 \<le> \<lfloor>min 1 a * 32767\<rfloor>" "\<lfloor>min 1 a * 32767\<rfloor> \<le> 32767"
    by (simp_all add: le_floor_iff floor_le_iff)
  then show ?thesis using False by (simp add: sample_finite sint_word_of_int_16)
qed

lemma sint_sample_special:
  "sint (float32_sample_to_pcm16 PosInf) = 32767"
  "sint (float32_sample_to_pcm16 NegInf) = - 32768"
  "sint (float32_sample_to_pcm16 NaN) = 0"
  by (simp_all add: float32_sample_to_pcm16_def Let_def truncate_toward_zero_def)

lemma js_le_Num: "js_le (Num a) (Num b) \<longleftrightarrow> a \<le> b"
  by (auto simp: js_le_def)

lemma js_le_special:
  "js_le NegInf (Num b)" "\<not> js_le PosInf (Num b)" "\<not> js_le NaN (Num b)"
  "js_le (Num b) PosInf" "\<not> js_le (Num b) NegInf" "\<not> js_le (Num b) NaN"
  by (simp_all add: js_le_def)

lemma sample_low:
  "sint (float32_sample_to_pcm16 x) = - 32768 \<longleftrightarrow> js_le x (Num (- 1))"
proof (cases x)
  case (Num a)
  show ?thesis
  proof (cases "a \<le> - 1")
    case True
    then show ?thesis by (simp add: Num sint_sample_finite js_le_Num max_def)
  next
    case False
    have "sint (float32_sample_to_pcm16 (Num a)) > - 32768"
    proof (cases "a < 0")
      case True
      with False have "- 32768 < a * 32768" by simp
      then have "- 32768 < \<lceil>a * 32768\<rceil>" by (simp add: less_ceiling_iff)
      with True False show ?thesis by (simp add: sint_sample_finite max_def)
    next
      case False
      then have "0 \<le> min 1 a * 32767" by (simp add: min_def)
      then have "0 \<le> \<lfloor>min 1 a * 32767\<rfloor>" by simp
      with False show ?thesis by (simp add: sint_sample_finite)
    qed
    with False show ?thesis by (simp add: Num js_le_Num)
  qed
qed (simp_all add: sint_sample_special js_le_special)

lemma sample_high:
  "sint (float32_sample_to_pcm16 x) = 32767 \<longleftrightarrow> js_le (Num 1) x"
proof (cases x)
  case (Num a)
  show ?thesis
  proof (cases "1 \<le> a")
    case True
    then show ?thesis by (simp add: Num sint_sample_finite js_le_Num min_def)
  next
    case False
    have "sint (float32_sample_to_pcm16 (Num a)) < 32767"
    proof (cases "a < 0")
      case True
      then have "max (- 1) a * 32768 < 0" by (simp add: max_def)
      then have "\<lceil>max (- 1) a * 32768\<rceil> \<le> 0" by (simp add: ceiling_le_iff)
      with True show ?thesis by (simp add: sint_sample_finite)
    next
      case nonneg: False
      from False have "a * 32767 < 32767" by simp
      then have "\<lfloor>a * 32767\<rfloor> < 32767" by (simp add: floor_less_iff)
      with False nonneg show ?thesis by (simp add: sint_sample_finite min_def)
    qed
    with False show ?thesis by (simp add: Num js_le_Num)
  qed
qed (simp_all add: sint_sample_special js_le_special)


section \<open>C1: a final transcript during Processing or Speaking\<close>

text \<open>
  C1 as stated fails: \<open>handleTranscript\<close> reads no phase. In the state reached
  from \<open>startSession\<close> by one final transcript and its reply, where the phase
  is Speaking, a further final transcript changes the transcript log, changes
  the phase, and leaves two sequences outstanding; delivered one step earlier,
  while the phase is Processing, it rewrites the pending user entry and leaves
  two generations outstanding.
\<close>

theorem final_transcript_while_speaking_not_ignored:
  "phase speaking_example = Speaking
   \<and> transcripts (handleTranscript 3000 (ascii ''wait'') True speaking_example)
       \<noteq> transcripts speaking_example
   \<and> phase (handleTranscript 3000 (ascii ''wait'') True speaking_example)
       \<noteq> phase speaking_example
   \<and> tasks (handleTranscript 3000 (ascii ''wait'') True speaking_example)
       = [AwaitingSynthesis (ascii ''ok''), AwaitingReply (ascii ''wait'')]
   \<and> phase processing_example = Processing
   \<and> transcripts (handleTranscript 1500 (ascii ''wait'') True processing_example)
       \<noteq> transcripts processing_example
   \<and> tasks (handleTranscript 1500 (ascii ''wait'') True processing_example)
       = [AwaitingReply (ascii ''hi''), AwaitingReply (ascii ''wait'')]"
  unfolding speaking_example_eq processing_example_eq
  by (simp add: handleTranscript_def generateAndSpeak_start_def user_entry_update_def Let_def
       ascii_def)

text \<open>
  C1, amended: in whatever phase a final transcript is delivered, Processing
  and Speaking included, handling it makes the final text the last user entry
  of the transcript log (replacing the last entry when that is a user entry,
  appending otherwise), sets the phase to Processing and starts one more
  generation, so the number of outstanding sequences grows by one with every
  final transcript. The orchestrator neither rejects nor queues the event.
\<close>

theorem final_transcript_handled_in_every_phase:
  "transcripts (handleTranscript now text True s) =
      (if transcripts s \<noteq> [] \<and> fst (last (transcripts s)) = User
       then butlast (transcripts s) else transcripts s) @ [(User, text)]
   \<and> phase (handleTranscript now text True s) = Processing
   \<and> tasks (handleTranscript now text True s) = tasks s @ [AwaitingReply text]
   \<and> emitted s (handleTranscript now text True s) = [SetPhase Processing, CallGenerateReply text]
   \<and> length (tasks (deliver_finals events s)) = length (tasks s) + length events"
proof -
  let ?s' = "handleTranscript now text True s"
  have log: "transcripts ?s' =
      (if transcripts s \<noteq> [] \<and> fst (last (transcripts s)) = User
       then butlast (transcripts s) else transcripts s) @ [(User, text)]"
    by (simp add: handleTranscript_final user_entry_update_first)
  have ph: "phase ?s' = Processing"
    by (simp add: handleTranscript_final)
  have ts: "tasks ?s' = tasks s @ [AwaitingReply text]"
    by (simp add: handleTranscript_final)
  have em: "emitted s ?s' = [SetPhase Processing, CallGenerateReply text]"
    by (simp add: handleTranscript_final emitted_def)
  have many: "length (tasks (deliver_finals events s)) = length (tasks s) + length events"
    by (simp add: tasks_deliver_finals)
  show ?thesis using log ph ts em many by blast
qed

theorem final_transcript_handled_in_every_phase_witness:
  "phase speaking_example = Speaking
   \<and> transcripts (handleTranscript 3000 (ascii ''wait'') True speaking_example) =
       [(User, ascii ''hi''), (Assistant, ascii ''ok''), (User, ascii ''wait'')]
   \<and> phase (handleTranscript 3000 (ascii ''wait'') True speaking_example) = Processing
   \<and> length (tasks (handleTranscript 3000 (ascii ''wait'') True speaking_example)) = 2
   \<and> length (tasks (deliver_finals [(3000, ascii ''wait''), (3100, ascii ''stop'')]
        speaking_example)) = 3"
  using final_transcript_handled_in_every_phase[of 3000 "ascii ''wait''" speaking_example
      "[(3000, ascii ''wait''), (3100, ascii ''stop'')]"]
  by (simp add: speaking_example_eq)


section \<open>C2: the canned fallback of generateReply\<close>

text \<open>
  C2: for every prompt, when the call to the generation route fails (the fetch
  errors or the response is not ok), and in particular when the route answers
  after every provider call of its chain has failed, \<open>generateReply\<close> resolves
  (it does not reject) with a non-empty string taken from the canned-response
  table of the prompt's detected language. Whatever the provider calls give,
  \<open>generateReply\<close> on the route's answer resolves with a non-empty string.
  \<open>rnd\<close> is the value of \<open>Math.random()\<close>.
\<close>

theorem generateReply_falls_back_to_canned_response:
  assumes "0 \<le> rnd" and "rnd < 1"
  shows "(fetch_failed fetched \<or>
           (\<exists>env' chat resp groq.
              fetched = POST env' chat resp groq \<and>
              provider_failed chat \<and> provider_failed resp \<and> provider_failed groq) \<longrightarrow>
          (\<exists>r. generateReply fetched rnd prompt = Inr (Some r) \<and> r \<noteq> [] \<and>
               r \<in> set (if detectLanguage prompt = zh_CN
                         then empatheticResponsesCN else empatheticResponsesEN)))
       \<and> (\<exists>r. generateReply (POST env chatRes respRes groqRes) rnd prompt = Inr (Some r) \<and> r \<noteq> [])"
proof -
  have fallback: "\<exists>r. generateReply f rnd prompt = Inr (Some r) \<and> r \<noteq> [] \<and>
               r \<in> set (if detectLanguage prompt = zh_CN
                         then empatheticResponsesCN else empatheticResponsesEN)"
    if "fetch_failed f" for f
  proof -
    from generateReply_try_failed[OF that] obtain e where "generateReply_try f = Inl e" ..
    then have "generateReply f rnd prompt = Inr (generateReply_catch rnd prompt)"
      by (simp add: generateReply_def)
    with generateReply_catch_canned[OF assms, of prompt] show ?thesis
      by (auto simp: canned_responses_def)
  qed
  have always: "\<exists>r. generateReply (POST env chatRes respRes groqRes) rnd prompt = Inr (Some r) \<and> r \<noteq> []"
    using POST_cases[of env chatRes respRes groqRes] fallback generateReply_ok by metis
  show ?thesis using fallback always POST_all_failed by blast
qed

theorem generateReply_falls_back_to_canned_response_witness:
  "(0::real) \<le> 1 / 2 \<and> (1::real) / 2 < 1
   \<and> provider_failed Rejected \<and> provider_failed Status_not_ok
   \<and> (\<exists>r. generateReply
              (POST \<lparr>request_parses = True, openaiKey = Some (ascii ''sk''), groqKey = Some (ascii ''gk''),
                      provider = []\<rparr> Rejected Status_not_ok Status_not_ok)
              (1 / 2) (ascii ''hello'') = Inr (Some r)
           \<and> r \<noteq> [] \<and> r \<in> set empatheticResponsesEN)"
proof -
  let ?env = "\<lparr>request_parses = True, openaiKey = Some (ascii ''sk''), groqKey = Some (ascii ''gk''),
                provider = []\<rparr>"
  let ?fetched = "POST ?env Rejected Status_not_ok Status_not_ok"
  have f: "provider_failed Rejected" "provider_failed Status_not_ok"
    by (simp_all add: provider_failed_def)
  have r: "(0::real) \<le> 1 / 2" "(1::real) / 2 < 1" by simp_all
  have all_failed: "\<exists>env' chat resp groq. ?fetched = POST env' chat resp groq \<and>
      provider_failed chat \<and> provider_failed resp \<and> provider_failed groq"
    using f by blast
  have "\<exists>r. generateReply ?fetched (1 / 2) (ascii ''hello'') = Inr (Some r) \<and> r \<noteq> [] \<and>
          r \<in> set (if detectLanguage (ascii ''hello'') = zh_CN
                    then empatheticResponsesCN else empatheticResponsesEN)"
    using generateReply_falls_back_to_canned_response[OF r, of ?fetched "ascii ''hello''"]
      all_failed by blast
  then have "\<exists>r. generateReply ?fetched (1 / 2) (ascii ''hello'') = Inr (Some r) \<and> r \<noteq> [] \<and>
          r \<in> set empatheticResponsesEN"
    by (simp add: detectLanguage_ascii_hello)
  with f r show ?thesis by blast
qed


section \<open>C3: when the silence callback is called\<close>

text \<open>
  C3 as stated fails for a silence duration of 0: the first poll hears a
  sample above the threshold, so the time elapsed since the last such sample
  is 0 there, which is at least the duration, and poll 0 is the first due
  poll; the code calls back only from a poll whose own sample is not above the
  threshold, here poll 1.
\<close>

theorem silence_callback_not_at_loud_poll_for_duration_zero:
  "silence_due 0.03 0 [(150, 0.5), (300, 0.01)] 0
   \<and> first_callback [(150, 0.5), (300, 0.01)]
        (startSilenceDetection 0.03 0 0 (detector_constructed 0)) = Some 1"
  by (simp add: silence_due_def elapsed_since_loud_def startSilenceDetection_def
       detector_constructed_def silence_check_def stopSilenceDetection_def Let_def)

text \<open>
  C3, amended: for a positive silence duration and every sequence of polls,
  each with its time and intensity sample, the silence callback is first
  called at poll \<open>k\<close> exactly when \<open>k\<close> is the first poll at which the time
  elapsed since the last sample above the threshold is at least the duration;
  and when it is called at poll \<open>k\<close>, some sample before poll \<open>k\<close> was above
  the threshold. When no interval was running before \<open>startSilenceDetection\<close>,
  the callback is called at no other poll of the run.
\<close>

theorem silence_callback_at_first_due_poll:
  assumes "0 < duration"
  shows "(first_callback polls (startSilenceDetection threshold duration started d) = Some k \<longleftrightarrow>
            k < length polls \<and> silence_due threshold duration polls k \<and>
            (\<forall>i<k. \<not> silence_due threshold duration polls i))
       \<and> (first_callback polls (startSilenceDetection threshold duration started d) = Some k \<longrightarrow>
            (\<exists>j<k. snd (polls ! j) > threshold))
       \<and> (intervals d = [] \<longrightarrow>
            callbacks (run_polls polls (startSilenceDetection threshold duration started d)) =
              (case first_callback polls (startSilenceDetection threshold duration started d) of
                 None \<Rightarrow> callbacks d
               | Some k \<Rightarrow> callbacks d @ [fst (polls ! k)]))"
proof -
  let ?d = "startSilenceDetection threshold duration started d"
  have iff: "first_callback polls ?d = Some k \<longleftrightarrow>
            k < length polls \<and> silence_due threshold duration polls k \<and>
            (\<forall>i<k. \<not> silence_due threshold duration polls i)"
    using first_callback_due_from[OF assms, of ?d threshold polls k]
    by (simp add: startSilenceDetection_def silence_due_due_from[of _ _ _ _ started])
  have cd: "callbacks ?d = callbacks d" by (simp add: startSilenceDetection_def)
  have run: "callbacks (run_polls polls ?d) =
            (case first_callback polls ?d of
               None \<Rightarrow> callbacks d
             | Some k \<Rightarrow> callbacks d @ [fst (polls ! k)])"
    if "intervals d = []"
  proof -
    have "intervals ?d = [nextIntervalId d]" "silenceCheckIntervalId ?d = Some (nextIntervalId d)"
      using that by (simp_all add: startSilenceDetection_def)
    from callbacks_run_polls[OF this, of polls] cd show ?thesis
      by (simp split: option.splits)
  qed
  show ?thesis using iff run silence_due_after_loud[OF assms] by blast
qed

theorem silence_callback_at_first_due_poll_witness:
  "(0::real) < 300
   \<and> intervals (detector_constructed 0) = []
   \<and> first_callback [(150, 0.01), (300, 0.5), (450, 0.01), (600, 0.02), (750, 0)]
        (startSilenceDetection 0.03 300 0 (detector_constructed 0)) = Some 3
   \<and> silence_due 0.03 300 [(150, 0.01), (300, 0.5), (450, 0.01), (600, 0.02), (750, 0)] 3
   \<and> \<not> silence_due 0.03 300 [(150, 0.01), (300, 0.5), (450, 0.01), (600, 0.02), (750, 0)] 2
   \<and> callbacks (run_polls [(150, 0.01), (300, 0.5), (450, 0.01), (600, 0.02), (750, 0)]
        (startSilenceDetection 0.03 300 0 (detector_constructed 0))) = [600]"
proof -
  let ?polls = "[(150, 0.01), (300, 0.5), (450, 0.01), (600, 0.02), (750, 0)] :: (int \<times> real) list"
  have d: "silence_due 0.03 300 ?polls 3" "\<not> silence_due 0.03 300 ?polls 2"
     "\<not> silence_due 0.03 300 ?polls 1" "\<not> silence_due 0.03 300 ?polls 0"
    by (simp_all add: silence_due_def elapsed_since_loud_def numeral_3_eq_3 numeral_2_eq_2)
  have "i = 0 \<or> i = 1 \<or> i = 2" if "i < 3" for i :: nat
    using that by arith
  then have all: "\<forall>i<3. \<not> silence_due 0.03 300 ?polls i"
    using d(2,3,4) by blast
  have c: "intervals (detector_constructed 0) = []" "callbacks (detector_constructed 0) = []"
    by (simp_all add: detector_constructed_def)
  have first: "first_callback ?polls (startSilenceDetection 0.03 300 0 (detector_constructed 0)) = Some 3"
    using d(1) all silence_callback_at_first_due_poll[where duration = 300 and polls = ?polls
        and threshold = "0.03" and started = 0 and d = "detector_constructed 0" and k = 3]
    by simp
  have "callbacks (run_polls ?polls (startSilenceDetection 0.03 300 0 (detector_constructed 0))) = [600]"
    using c first silence_callback_at_first_due_poll[where duration = 300 and polls = ?polls
        and threshold = "0.03" and started = 0 and d = "detector_constructed 0" and k = 3]
    by (simp add: numeral_3_eq_3)
  with d c first show ?thesis by simp
qed

section \<open>C4: interim, interim, final\<close>




section \<open>C5: feedback values are frozen outside Listening\<close>

text \<open>
  C5 as stated fails in its second half: the audio intensity handed to the
  renderer is the current intensity in phase Idle too, not only in phase
  Listening. After a Listening render with intensity 1/2 and an Idle render,
  an Idle render with current intensity 7/10 delivers 7/10 and one with 9/10
  delivers 9/10, while the value stored by the Listening render is 1/2.
\<close>

theorem idle_render_delivers_current_audio_intensity:
  "effectiveAudioIntensity Idle (7 / 10)
      (renders [(Listening, 1 / 2), (Idle, 3 / 10)] visuals_mounted) = 7 / 10
   \<and> effectiveAudioIntensity Idle (9 / 10)
      (renders [(Listening, 1 / 2), (Idle, 3 / 10)] visuals_mounted) = 9 / 10
   \<and> lastListeningAudioRef (renders [(Listening, 1 / 2), (Idle, 3 / 10)] visuals_mounted) = 1 / 2"
  by (simp add: effectiveAudioIntensity_def renders_def feedback_effect_def visuals_mounted_def
       Let_def)

text \<open>
  C5, amended: for every sequence of intensity samples and phase transitions,
  the feedback values (brightness, bloom, audio intensity) delivered to the
  renderer while the phase is Processing or Speaking equal the last values
  computed while the phase was Listening; brightness and bloom are recomputed
  from the current intensity only while the phase is Listening, and the audio
  intensity delivered is the current intensity in every phase other than
  Processing and Speaking, Idle as well as Listening.

  In the theorem: take any history of renders that contains a Listening render
  with intensity \<open>heard\<close> followed only by renders in other phases. A render in
  phase Processing or Speaking, whatever the current intensity, hands the
  renderer the audio intensity, brightness and bloom that the effect of that
  last Listening render computed and stored: \<open>heard\<close>, \<open>1 + 2 heard\<close> and
  \<open>1.5 + 4.5 heard\<close>; this holds before and after the render's own effect.
  With no Listening render in the history the three values are the initial
  0, 1.0 and 1.0. The effect of a render in a phase other than Listening sets
  brightness and bloom to 1.0, whatever the intensity, and leaves the three
  stored values as they are; the effect of a Listening render computes them
  from its intensity. A render in a phase other than Processing and Speaking
  hands on the current intensity and the brightness and bloom state.
\<close>

theorem feedback_frozen_at_last_listening_values:
  assumes later: "\<forall>(q, a) \<in> set later. q \<noteq> Listening"
    and ph: "ph = Processing \<or> ph = Speaking"
  shows "effectiveAudioIntensity ph audioIntensity
           (renders (earlier @ [(Listening, heard)] @ later) v) = heard
       \<and> effectiveBrightness ph (renders (earlier @ [(Listening, heard)] @ later) v)
           = brightness (feedback_effect Listening heard (renders earlier v))
       \<and> effectiveBloom ph (renders (earlier @ [(Listening, heard)] @ later) v)
           = bloom (feedback_effect Listening heard (renders earlier v))
       \<and> effectiveBrightness ph (renders (earlier @ [(Listening, heard)] @ later) v)
           = 1.0 + heard * 2.0
       \<and> effectiveBloom ph (renders (earlier @ [(Listening, heard)] @ later) v)
           = 1.5 + heard * 4.5
       \<and> effectiveAudioIntensity ph audioIntensity
           (feedback_effect ph audioIntensity (renders (earlier @ [(Listening, heard)] @ later) v))
           = heard
       \<and> effectiveBrightness ph
           (feedback_effect ph audioIntensity (renders (earlier @ [(Listening, heard)] @ later) v))
           = 1.0 + heard * 2.0
       \<and> effectiveBloom ph
           (feedback_effect ph audioIntensity (renders (earlier @ [(Listening, heard)] @ later) v))
           = 1.5 + heard * 4.5
       \<and> lastListeningAudioRef (feedback_effect ph audioIntensity w) = lastListeningAudioRef w
       \<and> lastListeningBrightnessRef (feedback_effect ph audioIntensity w)
           = lastListeningBrightnessRef w
       \<and> lastListeningBloomRef (feedback_effect ph audioIntensity w) = lastListeningBloomRef w
       \<and> lastListeningAudioRef (feedback_effect Listening audioIntensity w) = audioIntensity
       \<and> lastListeningBrightnessRef (feedback_effect Listening audioIntensity w)
           = 1.0 + audioIntensity * 2.0
       \<and> lastListeningBloomRef (feedback_effect Listening audioIntensity w)
           = 1.5 + audioIntensity * 4.5
       \<and> brightness (feedback_effect Listening audioIntensity w) = 1.0 + audioIntensity * 2.0
       \<and> bloom (feedback_effect Listening audioIntensity w) = 1.5 + audioIntensity * 4.5
       \<and> (other \<noteq> Listening \<longrightarrow>
            feedback_effect other audioIntensity w = w\<lparr>brightness := 1.0, bloom := 1.0\<rparr>)
       \<and> (other \<noteq> Processing \<and> other \<noteq> Speaking \<longrightarrow>
            effectiveAudioIntensity other audioIntensity w = audioIntensity
            \<and> effectiveBrightness other w = brightness w
            \<and> effectiveBloom other w = bloom w)
       \<and> ((\<forall>(q, a) \<in> set history. q \<noteq> Listening) \<longrightarrow>
            effectiveAudioIntensity ph audioIntensity (renders history visuals_mounted) = 0
            \<and> effectiveBrightness ph (renders history visuals_mounted) = 1.0
            \<and> effectiveBloom ph (renders history visuals_mounted) = 1.0)"
proof -
  let ?l = "feedback_effect Listening heard (renders earlier v)"
  have eq: "renders (earlier @ [(Listening, heard)] @ later) v = renders later ?l"
    by (simp add: renders_append renders_Cons renders_Nil)
  have nl: "ph \<noteq> Listening" using ph by auto
  have frozen: "effectiveAudioIntensity ph audioIntensity
           (renders (earlier @ [(Listening, heard)] @ later) v) = heard
       \<and> effectiveBrightness ph (renders (earlier @ [(Listening, heard)] @ later) v)
           = brightness (feedback_effect Listening heard (renders earlier v))
       \<and> effectiveBloom ph (renders (earlier @ [(Listening, heard)] @ later) v)
           = bloom (feedback_effect Listening heard (renders earlier v))
       \<and> effectiveBrightness ph (renders (earlier @ [(Listening, heard)] @ later) v)
           = 1.0 + heard * 2.0
       \<and> effectiveBloom ph (renders (earlier @ [(Listening, heard)] @ later) v)
           = 1.5 + heard * 4.5
       \<and> effectiveAudioIntensity ph audioIntensity
           (feedback_effect ph audioIntensity (renders (earlier @ [(Listening, heard)] @ later) v))
           = heard
       \<and> effectiveBrightness ph
           (feedback_effect ph audioIntensity (renders (earlier @ [(Listening, heard)] @ later) v))
           = 1.0 + heard * 2.0
       \<and> effectiveBloom ph
           (feedback_effect ph audioIntensity (renders (earlier @ [(Listening, heard)] @ later) v))
           = 1.5 + heard * 4.5
       \<and> lastListeningAudioRef (feedback_effect ph audioIntensity w) = lastListeningAudioRef w
       \<and> lastListeningBrightnessRef (feedback_effect ph audioIntensity w)
           = lastListeningBrightnessRef w
       \<and> lastListeningBloomRef (feedback_effect ph audioIntensity w) = lastListeningBloomRef w
       \<and> lastListeningAudioRef (feedback_effect Listening audioIntensity w) = audioIntensity
       \<and> lastListeningBrightnessRef (feedback_effect Listening audioIntensity w)
           = 1.0 + audioIntensity * 2.0
       \<and> lastListeningBloomRef (feedback_effect Listening audioIntensity w)
           = 1.5 + audioIntensity * 4.5
       \<and> brightness (feedback_effect Listening audioIntensity w) = 1.0 + audioIntensity * 2.0
       \<and> bloom (feedback_effect Listening audioIntensity w) = 1.5 + audioIntensity * 4.5"
    unfolding eq using renders_not_listening[OF later, of ?l] ph
    by (auto simp: effectiveAudioIntensity_def effectiveBrightness_def effectiveBloom_def
          feedback_effect_listening feedback_effect_not_listening[OF nl])
  have effect: "feedback_effect other audioIntensity w = w\<lparr>brightness := 1.0, bloom := 1.0\<rparr>"
    if "other \<noteq> Listening"
    using that by (simp add: feedback_effect_def)
  have live: "effectiveAudioIntensity other audioIntensity w = audioIntensity
            \<and> effectiveBrightness other w = brightness w
            \<and> effectiveBloom other w = bloom w"
    if "other \<noteq> Processing \<and> other \<noteq> Speaking"
    using that
    by (simp add: effectiveAudioIntensity_def effectiveBrightness_def effectiveBloom_def)
  have initial: "effectiveAudioIntensity ph audioIntensity (renders history visuals_mounted) = 0
            \<and> effectiveBrightness ph (renders history visuals_mounted) = 1.0
            \<and> effectiveBloom ph (renders history visuals_mounted) = 1.0"
    if "\<forall>(q, a) \<in> set history. q \<noteq> Listening"
    using renders_never_listening[OF that] ph
    by (auto simp: effectiveAudioIntensity_def effectiveBrightness_def effectiveBloom_def)
  show ?thesis using frozen effect live initial by blast
qed

theorem feedback_frozen_at_last_listening_values_witness:
  "(\<forall>(q, a) \<in> set [(Processing, 9 / 10), (Speaking, 1 / 10 :: real)]. q \<noteq> Listening) = True
   \<and> effectiveAudioIntensity Speaking (7 / 10)
        (renders ([(Idle, 0)] @ [(Listening, 1 / 2)] @ [(Processing, 9 / 10), (Speaking, 1 / 10)])
           visuals_mounted) = 1 / 2
   \<and> effectiveBrightness Speaking
        (renders ([(Idle, 0)] @ [(Listening, 1 / 2)] @ [(Processing, 9 / 10), (Speaking, 1 / 10)])
           visuals_mounted) = 2
   \<and> effectiveBloom Speaking
        (renders ([(Idle, 0)] @ [(Listening, 1 / 2)] @ [(Processing, 9 / 10), (Speaking, 1 / 10)])
           visuals_mounted) = 15 / 4
   \<and> Idle \<noteq> Listening \<and> Idle \<noteq> Processing \<and> Idle \<noteq> Speaking
   \<and> feedback_effect Idle (7 / 10) visuals_mounted = visuals_mounted
   \<and> effectiveAudioIntensity Idle (7 / 10) visuals_mounted = 7 / 10
   \<and> effectiveAudioIntensity Speaking (7 / 10)
        (renders [(Processing, 9 / 10), (Speaking, 1 / 10)] visuals_mounted) = 0
   \<and> effectiveBrightness Speaking
        (renders [(Processing, 9 / 10), (Speaking, 1 / 10)] visuals_mounted) = 1
   \<and> effectiveBloom Speaking
        (renders [(Processing, 9 / 10), (Speaking, 1 / 10)] visuals_mounted) = 1"
proof -
  have h: "\<forall>(q, a) \<in> set [(Processing, 9 / 10), (Speaking, 1 / 10 :: real)]. q \<noteq> Listening"
    by simp
  have m: "visuals_mounted\<lparr>brightness := 1.0, bloom := 1.0\<rparr> = visuals_mounted"
    by (simp add: visuals_mounted_def)
  show ?thesis
    using h m feedback_frozen_at_last_listening_values[OF h,
        where ph = Speaking and audioIntensity = "7 / 10" and earlier = "[(Idle, 0)]"
          and heard = "1 / 2" and v = visuals_mounted and w = visuals_mounted and other = Idle
          and history = "[(Processing, 9 / 10), (Speaking, 1 / 10)]"]
    by (simp add: feedback_effect_listening)
qed


section \<open>C6: the order of generation, synthesis and restart within a turn\<close>

text \<open>
  C6 as stated fails when a turn starts before the turn before it is over, or
  before the restart timer of the turn before it is due; \<open>handleTranscript\<close>
  has no guard against either. With two turns in flight, the phase is set to
  Idle when the synthesis of the first settles, at 3000, while the synthesis of
  the second is outstanding; the second settles at 3150 and closes the port
  again; the timer of the first closure reconnects the port at 3500, which is
  350 ms after the latest closure. With a turn that starts at 3100, between the
  closure at 3000 and its timer, the port is reconnected at 3500 while that
  turn is Speaking and its synthesis is outstanding.
\<close>

theorem second_turn_breaks_order_of_synthesis_and_restart:
  "phase two_turns_speaking = Speaking
   \<and> tasks two_turns_speaking = [AwaitingSynthesis (ascii ''ok''), AwaitingSynthesis (ascii ''sure'')]
   \<and> emitted two_turns_speaking first_turn_spoken = [SetPhase Idle, Disconnect, SetTimeout 500]
   \<and> phase first_turn_spoken = Idle
   \<and> tasks first_turn_spoken = [AwaitingSynthesis (ascii ''sure'')]
   \<and> emitted first_turn_spoken both_turns_spoken = [SetPhase Idle, Disconnect, SetTimeout 500]
   \<and> timers both_turns_spoken = [3500, 3650]
   \<and> emitted both_turns_spoken (timers_fire 3500 both_turns_spoken) = [Connect]
   \<and> phase turn_before_restart = Speaking
   \<and> tasks turn_before_restart = [AwaitingSynthesis (ascii ''sure'')]
   \<and> emitted turn_before_restart (timers_fire 3500 turn_before_restart) = [Connect]"
  unfolding two_turns_speaking_eq first_turn_spoken_eq both_turns_spoken_eq turn_before_restart_eq
  by (simp add: emitted_def timers_fire_def Let_def)

text \<open>
  C6, amended: within every turn that starts with no restart timer pending and
  whose steps are not interleaved with those of another turn, generation
  strictly precedes synthesis and synthesis strictly precedes the next
  Listening phase: after the reply is obtained the phase becomes Speaking
  before synthesis begins, the phase is set back to Idle only after synthesis
  resolves (success or failure), and the recognition port is reconnected only
  after a fixed 500 ms delay following its closure. In every state, synthesis
  is called only by the step that receives a reply, right after that step sets
  the phase to Speaking; the step that sees a synthesis settle sets the phase
  to Idle, closes the port and sets a timer due 500 ms later; and the port is
  reconnected by a due timer and by nothing else in a turn.

  In the theorem: take a state with a TTS client and a recognition client
  (both exist from \<open>startSession\<close> on) and no restart timer pending, and a turn
  in it: final transcript at \<open>t1\<close>, reply at \<open>t2\<close>, synthesis settled at \<open>t3\<close>,
  resolved or rejected. Handling the transcript sets the phase to Processing
  and calls \<open>generateReply\<close>; the step that receives the reply sets the phase to
  Speaking and then calls \<open>synthesizeAndPlay\<close>; the step that sees synthesis
  settle sets the phase to Idle, and it then disconnects the recognition client
  and sets a timer of 500 ms. The client is connected again by that timer,
  that is at a time \<open>t4\<close> exactly when \<open>t3 + 500 \<le> t4\<close>. A turn whose
  \<open>generateReply\<close> rejects calls no synthesis at all and goes from Processing
  to Idle and the same restart. The last conjuncts are about a step in any
  state \<open>u\<close>.
\<close>

theorem turn_runs_generation_then_synthesis_then_restart:
  assumes tts: "ttsClientRef s \<noteq> None" and cl: "clientRef s \<noteq> None" and tm: "timers s = []"
  shows
   "phase (handleTranscript t1 userText True s) = Processing
    \<and> emitted s (handleTranscript t1 userText True s)
        = [SetPhase Processing, CallGenerateReply userText]
    \<and> phase (turn_replied t1 userText t2 reply s) = Speaking
    \<and> emitted (handleTranscript t1 userText True s) (turn_replied t1 userText t2 reply s)
        = [SetPhase Speaking, CallSynthesizeAndPlay (voice_for (detectLanguage reply)) reply]
    \<and> phase (turn_spoken t1 userText t2 reply t3 ok s) = Idle
    \<and> emitted (turn_replied t1 userText t2 reply s) (turn_spoken t1 userText t2 reply t3 ok s)
        = [SetPhase Idle, Disconnect, SetTimeout 500]
    \<and> precedes (CallGenerateReply userText)
         (CallSynthesizeAndPlay (voice_for (detectLanguage reply)) reply)
         (emitted s (turn_spoken t1 userText t2 reply t3 ok s))
    \<and> precedes (SetPhase Speaking)
         (CallSynthesizeAndPlay (voice_for (detectLanguage reply)) reply)
         (emitted s (turn_spoken t1 userText t2 reply t3 ok s))
    \<and> precedes (CallSynthesizeAndPlay (voice_for (detectLanguage reply)) reply) (SetPhase Idle)
         (emitted s (turn_spoken t1 userText t2 reply t3 ok s))
    \<and> precedes Disconnect (SetTimeout 500) (emitted s (turn_spoken t1 userText t2 reply t3 ok s))
    \<and> clientRef (turn_spoken t1 userText t2 reply t3 ok s) = Some False
    \<and> timers (turn_spoken t1 userText t2 reply t3 ok s) = [t3 + 500]
    \<and> (Connect \<in> set (emitted (turn_spoken t1 userText t2 reply t3 ok s)
                        (timers_fire t4 (turn_spoken t1 userText t2 reply t3 ok s)))
         \<longleftrightarrow> t3 + 500 \<le> t4)
    \<and> (clientRef (timers_fire t4 (turn_spoken t1 userText t2 reply t3 ok s)) = Some True
         \<longleftrightarrow> t3 + 500 \<le> t4)
    \<and> emitted s (reply_settled t2 (length (tasks s)) (Inl e) (handleTranscript t1 userText True s))
        = [SetPhase Processing, CallGenerateReply userText, SetPhase Idle, Disconnect,
           SetTimeout 500]
    \<and> (CallSynthesizeAndPlay voice r \<in> set (emitted u (reply_settled now k outcome u)) \<longrightarrow>
          outcome = Inr r \<and> k < length (tasks u) \<and> (\<exists>prompt. tasks u ! k = AwaitingReply prompt)
          \<and> voice = voice_for (detectLanguage r)
          \<and> emitted u (reply_settled now k outcome u)
              = [SetPhase Speaking, CallSynthesizeAndPlay voice r]
          \<and> phase (reply_settled now k outcome u) = Speaking)
    \<and> CallSynthesizeAndPlay voice r \<notin> set (emitted u (handleTranscript now utterance isFinal u))
    \<and> CallSynthesizeAndPlay voice r \<notin> set (emitted u (synthesis_settled now k ok u))
    \<and> CallSynthesizeAndPlay voice r \<notin> set (emitted u (timers_fire now u))
    \<and> (k < length (tasks u) \<and> tasks u ! k = AwaitingSynthesis r \<and> clientRef u \<noteq> None \<longrightarrow>
          emitted u (synthesis_settled now k ok u) = [SetPhase Idle, Disconnect, SetTimeout 500]
          \<and> phase (synthesis_settled now k ok u) = Idle
          \<and> timers (synthesis_settled now k ok u) = timers u @ [now + 500])
    \<and> (Connect \<in> set (emitted u (timers_fire now u)) \<longleftrightarrow>
          clientRef u \<noteq> None \<and> (\<exists>t \<in> set (timers u). t \<le> now))
    \<and> Connect \<notin> set (emitted u (handleTranscript now utterance isFinal u))
    \<and> Connect \<notin> set (emitted u (reply_settled now k outcome u))
    \<and> Connect \<notin> set (emitted u (synthesis_settled now k ok u))"
proof -
  let ?v = "voice_for (detectLanguage reply)"
  let ?s1 = "handleTranscript t1 userText True s"
  let ?s2 = "turn_replied t1 userText t2 reply s"
  let ?s3 = "turn_spoken t1 userText t2 reply t3 ok s"
  have p1: "phase ?s1 = Processing" by (simp add: handleTranscript_final)
  have e1: "emitted s ?s1 = [SetPhase Processing, CallGenerateReply userText]"
    by (simp add: handleTranscript_final emitted_def)
  have p2: "phase ?s2 = Speaking" by (simp add: turn_replied_eq[OF tts])
  have e2: "emitted ?s1 ?s2 = [SetPhase Speaking, CallSynthesizeAndPlay ?v reply]"
    by (simp add: turn_replied_eq[OF tts] handleTranscript_final emitted_def)
  have p3: "phase ?s3 = Idle" by (simp add: turn_spoken_eq[OF tts cl])
  have e3: "emitted ?s2 ?s3 = [SetPhase Idle, Disconnect, SetTimeout 500]"
    by (simp add: turn_spoken_eq[OF tts cl] turn_replied_eq[OF tts] emitted_def)
  have e: "emitted s ?s3 = [SetPhase Processing, CallGenerateReply userText, SetPhase Speaking,
              CallSynthesizeAndPlay ?v reply, SetPhase Idle, Disconnect, SetTimeout 500]"
    by (simp add: turn_spoken_eq[OF tts cl] emitted_def)
  have o1: "precedes (CallGenerateReply userText) (CallSynthesizeAndPlay ?v reply) (emitted s ?s3)"
    unfolding e by (rule precedes_at[of 1]) simp_all
  have o2: "precedes (SetPhase Speaking) (CallSynthesizeAndPlay ?v reply) (emitted s ?s3)"
    unfolding e by (rule precedes_at[of 2]) simp_all
  have o3: "precedes (CallSynthesizeAndPlay ?v reply) (SetPhase Idle) (emitted s ?s3)"
    unfolding e by (rule precedes_at[of 3]) simp_all
  have o4: "precedes Disconnect (SetTimeout 500) (emitted s ?s3)"
    unfolding e by (rule precedes_at[of 5]) simp_all
  have c3: "clientRef ?s3 = Some False" by (simp add: turn_spoken_eq[OF tts cl])
  have t3: "timers ?s3 = [t3 + 500]" by (simp add: turn_spoken_eq[OF tts cl] tm)
  have f1: "Connect \<in> set (emitted ?s3 (timers_fire t4 ?s3)) \<longleftrightarrow> t3 + 500 \<le> t4"
    by (simp add: timers_fire_single(1)[OF t3 c3])
  have f2: "clientRef (timers_fire t4 ?s3) = Some True \<longleftrightarrow> t3 + 500 \<le> t4"
    by (simp add: timers_fire_single(2)[OF t3 c3])
  note g = turn_generation_failed_eq(1)[OF cl, of t2 e t1 userText]
  have turn: "phase ?s1 = Processing
    \<and> emitted s ?s1 = [SetPhase Processing, CallGenerateReply userText]
    \<and> phase ?s2 = Speaking
    \<and> emitted ?s1 ?s2 = [SetPhase Speaking, CallSynthesizeAndPlay ?v reply]
    \<and> phase ?s3 = Idle
    \<and> emitted ?s2 ?s3 = [SetPhase Idle, Disconnect, SetTimeout 500]
    \<and> precedes (CallGenerateReply userText) (CallSynthesizeAndPlay ?v reply) (emitted s ?s3)
    \<and> precedes (SetPhase Speaking) (CallSynthesizeAndPlay ?v reply) (emitted s ?s3)
    \<and> precedes (CallSynthesizeAndPlay ?v reply) (SetPhase Idle) (emitted s ?s3)
    \<and> precedes Disconnect (SetTimeout 500) (emitted s ?s3)
    \<and> clientRef ?s3 = Some False
    \<and> timers ?s3 = [t3 + 500]
    \<and> (Connect \<in> set (emitted ?s3 (timers_fire t4 ?s3)) \<longleftrightarrow> t3 + 500 \<le> t4)
    \<and> (clientRef (timers_fire t4 ?s3) = Some True \<longleftrightarrow> t3 + 500 \<le> t4)
    \<and> emitted s (reply_settled t2 (length (tasks s)) (Inl e) ?s1)
        = [SetPhase Processing, CallGenerateReply userText, SetPhase Idle, Disconnect,
           SetTimeout 500]"
    using p1 e1 p2 e2 p3 e3 o1 o2 o3 o4 c3 t3 f1 f2 g by blast
  have step: "(CallSynthesizeAndPlay voice r \<in> set (emitted u (reply_settled now k outcome u)) \<longrightarrow>
          outcome = Inr r \<and> k < length (tasks u) \<and> (\<exists>prompt. tasks u ! k = AwaitingReply prompt)
          \<and> voice = voice_for (detectLanguage r)
          \<and> emitted u (reply_settled now k outcome u)
              = [SetPhase Speaking, CallSynthesizeAndPlay voice r]
          \<and> phase (reply_settled now k outcome u) = Speaking)
    \<and> CallSynthesizeAndPlay voice r \<notin> set (emitted u (handleTranscript now utterance isFinal u))
    \<and> CallSynthesizeAndPlay voice r \<notin> set (emitted u (synthesis_settled now k ok u))
    \<and> CallSynthesizeAndPlay voice r \<notin> set (emitted u (timers_fire now u))
    \<and> (k < length (tasks u) \<and> tasks u ! k = AwaitingSynthesis r \<and> clientRef u \<noteq> None \<longrightarrow>
          emitted u (synthesis_settled now k ok u) = [SetPhase Idle, Disconnect, SetTimeout 500]
          \<and> phase (synthesis_settled now k ok u) = Idle
          \<and> timers (synthesis_settled now k ok u) = timers u @ [now + 500])
    \<and> (Connect \<in> set (emitted u (timers_fire now u)) \<longleftrightarrow>
          clientRef u \<noteq> None \<and> (\<exists>t \<in> set (timers u). t \<le> now))
    \<and> Connect \<notin> set (emitted u (handleTranscript now utterance isFinal u))
    \<and> Connect \<notin> set (emitted u (reply_settled now k outcome u))
    \<and> Connect \<notin> set (emitted u (synthesis_settled now k ok u))"
    using synthesis_called_only_on_reply[of voice r u now k outcome]
      no_synthesis_elsewhere[of voice r u now] synthesis_settled_step[of k u r now ok]
      connect_only_by_timer[of u now] no_connect_elsewhere[of u now]
    by blast
  show ?thesis using turn step by blast
qed

theorem turn_runs_generation_then_synthesis_then_restart_witness:
  "ttsClientRef (startSession (mounted 0)) \<noteq> None
   \<and> clientRef (startSession (mounted 0)) \<noteq> None
   \<and> timers (startSession (mounted 0)) = []
   \<and> phase (turn_replied 1000 (ascii ''hello there'') 1800 (ascii ''I hear you.'')
        (startSession (mounted 0))) = Speaking
   \<and> precedes (CallGenerateReply (ascii ''hello there''))
        (CallSynthesizeAndPlay (voice_for (detectLanguage (ascii ''I hear you.'')))
           (ascii ''I hear you.''))
        (emitted (startSession (mounted 0))
          (turn_spoken 1000 (ascii ''hello there'') 1800 (ascii ''I hear you.'') 4000 True
             (startSession (mounted 0))))
   \<and> timers (turn_spoken 1000 (ascii ''hello there'') 1800 (ascii ''I hear you.'') 4000 True
        (startSession (mounted 0))) = [4500]
   \<and> CallSynthesizeAndPlay (ascii ''en-US-JennyNeural'') (ascii ''sure'')
        \<in> set (emitted (handleTranscript 2100 (ascii ''and'') True speaking_example)
                 two_turns_speaking)
   \<and> emitted (handleTranscript 2100 (ascii ''and'') True speaking_example) two_turns_speaking
        = [SetPhase Speaking, CallSynthesizeAndPlay (ascii ''en-US-JennyNeural'') (ascii ''sure'')]
   \<and> 0 < length (tasks two_turns_speaking)
   \<and> tasks two_turns_speaking ! 0 = AwaitingSynthesis (ascii ''ok'')
   \<and> clientRef two_turns_speaking \<noteq> None
   \<and> emitted two_turns_speaking first_turn_spoken = [SetPhase Idle, Disconnect, SetTimeout 500]
   \<and> timers first_turn_spoken = [3500]
   \<and> Connect \<in> set (emitted first_turn_spoken (timers_fire 3500 first_turn_spoken))"
proof -
  note turn = turn_runs_generation_then_synthesis_then_restart[OF started_session(1,2,3)]
  let ?u = "handleTranscript 2100 (ascii ''and'') True speaking_example"
  have called: "CallSynthesizeAndPlay (ascii ''en-US-JennyNeural'') (ascii ''sure'')
        \<in> set (emitted ?u (reply_settled 2200 1 (Inr (ascii ''sure'')) ?u))"
    unfolding speaking_example_eq
    by (simp add: handleTranscript_final reply_settled_def Let_def voice_for_sure emitted_def)
  have a: "phase (turn_replied 1000 (ascii ''hello there'') 1800 (ascii ''I hear you.'')
        (startSession (mounted 0))) = Speaking
   \<and> precedes (CallGenerateReply (ascii ''hello there''))
        (CallSynthesizeAndPlay (voice_for (detectLanguage (ascii ''I hear you.'')))
           (ascii ''I hear you.''))
        (emitted (startSession (mounted 0))
          (turn_spoken 1000 (ascii ''hello there'') 1800 (ascii ''I hear you.'') 4000 True
             (startSession (mounted 0))))
   \<and> timers (turn_spoken 1000 (ascii ''hello there'') 1800 (ascii ''I hear you.'') 4000 True
        (startSession (mounted 0))) = [4500]"
    using turn[where ?t1.0 = 1000 and userText = "ascii ''hello there''" and ?t2.0 = 1800
        and reply = "ascii ''I hear you.''" and ?t3.0 = 4000 and ok = True]
    by simp
  have b: "emitted ?u two_turns_speaking
        = [SetPhase Speaking, CallSynthesizeAndPlay (ascii ''en-US-JennyNeural'') (ascii ''sure'')]"
    using called turn[where u = ?u and now = 2200 and k = 1 and outcome = "Inr (ascii ''sure'')"
        and voice = "ascii ''en-US-JennyNeural''" and r = "ascii ''sure''"]
    by (simp add: two_turns_speaking_def)
  have t: "0 < length (tasks two_turns_speaking)"
    "tasks two_turns_speaking ! 0 = AwaitingSynthesis (ascii ''ok'')"
    "clientRef two_turns_speaking \<noteq> None" "timers two_turns_speaking = []"
    by (simp_all add: two_turns_speaking_eq)
  have c: "emitted two_turns_speaking first_turn_spoken = [SetPhase Idle, Disconnect, SetTimeout 500]
      \<and> timers first_turn_spoken = [3500]"
    using t turn[where u = two_turns_speaking and now = 3000 and k = 0 and ok = True
        and r = "ascii ''ok''"]
    by (simp add: first_turn_spoken_def)
  have cf: "clientRef first_turn_spoken \<noteq> None"
    by (simp add: first_turn_spoken_eq)
  have d: "Connect \<in> set (emitted first_turn_spoken (timers_fire 3500 first_turn_spoken))"
    using c cf turn[where u = first_turn_spoken and now = 3500]
    by simp
  show ?thesis using started_session(1,2,3) a b called c d t(1,2,3)
    by (simp add: two_turns_speaking_def)
qed


section \<open>C7: language detection, canned table and voice\<close>




section \<open>C8: PCM16 and Float32 conversions\<close>

text \<open>
  C8: \<open>playAudio\<close> turns a buffer that holds \<open>n\<close> 16-bit samples into \<open>n\<close>
  Float32 samples, each the sample divided by 32768, and \<open>float32ToPCM16\<close>
  turns \<open>n\<close> Float32 samples into \<open>n\<close> 16-bit samples, each the input clamped
  to \<open>[-1, 1]\<close>, scaled by 0x8000 when negative and by 0x7FFF otherwise, and
  truncated toward zero. The encoder gives -32768 exactly for the inputs that
  are at most -1 and 32767 exactly for the inputs that are at least 1. The
  converted chunk is what \<open>playAudio\<close> appends to the queue while a chunk is
  playing, and what it starts at once, leaving the queue empty, on a processor
  that is not playing and whose queue is empty.
\<close>

theorem pcm16_float32_conversions_keep_count_and_saturate:
  "(int16_view pcm16Data = Some int16Array \<longrightarrow>
      length pcm16Data = 2 * length int16Array
      \<and> (\<exists>p'. playAudio pcm16Data p = Inr p'
            \<and> (isPlaying p \<longrightarrow>
                  p' = p\<lparr>audioQueue := audioQueue p @ [pcm16_to_float32 int16Array]\<rparr>)
            \<and> (\<not> isPlaying p \<and> audioQueue p = [] \<and> int16Array \<noteq> [] \<longrightarrow>
                  p' = p\<lparr>isPlaying := True,
                         sourcesStarted := sourcesStarted p @ [pcm16_to_float32 int16Array]\<rparr>)))
   \<and> length (pcm16_to_float32 samples) = length samples
   \<and> pcm16_to_float32 samples = map (\<lambda>w. real_of_int (sint w) / 32768) samples
   \<and> length (float32ToPCM16 float32Array) = length float32Array
   \<and> float32ToPCM16 float32Array = map float32_sample_to_pcm16 float32Array
   \<and> sint (float32_sample_to_pcm16 (Num a)) =
        (if a < 0 then \<lceil>max (- 1) a * 0x8000\<rceil> else \<lfloor>min 1 a * 0x7fff\<rfloor>)
   \<and> (js_le x (Num (- 1)) \<longleftrightarrow> sint (float32_sample_to_pcm16 x) = - 32768)
   \<and> (js_le (Num 1) x \<longleftrightarrow> sint (float32_sample_to_pcm16 x) = 32767)"
proof -
  have a: "length pcm16Data = 2 * length int16Array
      \<and> (\<exists>p'. playAudio pcm16Data p = Inr p'
            \<and> (isPlaying p \<longrightarrow>
                  p' = p\<lparr>audioQueue := audioQueue p @ [pcm16_to_float32 int16Array]\<rparr>)
            \<and> (\<not> isPlaying p \<and> audioQueue p = [] \<and> int16Array \<noteq> [] \<longrightarrow>
                  p' = p\<lparr>isPlaying := True,
                         sourcesStarted := sourcesStarted p @ [pcm16_to_float32 int16Array]\<rparr>))"
    if "int16_view pcm16Data = Some int16Array"
  proof -
    have "pcm16_to_float32 int16Array = [] \<longleftrightarrow> int16Array = []"
      by (simp add: pcm16_to_float32_map)
    then show ?thesis
      using that int16_view_length[OF that]
      by (simp add: playAudio_def processAudioQueue_def Let_def)
  qed
  have b: "length (pcm16_to_float32 samples) = length samples"
    by (simp add: pcm16_to_float32_map)
  have c: "length (float32ToPCM16 float32Array) = length float32Array"
    by (simp add: float32ToPCM16_map)
  have d: "sint (float32_sample_to_pcm16 (Num a)) =
        (if a < 0 then \<lceil>max (- 1) a * 0x8000\<rceil> else \<lfloor>min 1 a * 0x7fff\<rfloor>)"
    by (simp add: sint_sample_finite)
  show ?thesis
    using a b c d pcm16_to_float32_map[of samples] float32ToPCM16_map[of float32Array]
      sample_low[of x] sample_high[of x]
    by blast
qed

theorem pcm16_float32_conversions_keep_count_and_saturate_witness:
  "int16_view [0x00, 0x80, 0xFF, 0x7F] = Some [0x8000, 0x7FFF]
   \<and> \<not> isPlaying playback_constructed \<and> audioQueue playback_constructed = []
   \<and> playAudio [0x00, 0x80, 0xFF, 0x7F] playback_constructed =
        Inr \<lparr>audioQueue = [], isPlaying = True, sourcesStarted = [[- 1, 32767 / 32768]]\<rparr>
   \<and> isPlaying \<lparr>audioQueue = [], isPlaying = True, sourcesStarted = [[- 1, 32767 / 32768]]\<rparr>
   \<and> playAudio [0x00, 0x80, 0xFF, 0x7F]
        \<lparr>audioQueue = [], isPlaying = True, sourcesStarted = [[- 1, 32767 / 32768]]\<rparr> =
        Inr \<lparr>audioQueue = [[- 1, 32767 / 32768]], isPlaying = True,
             sourcesStarted = [[- 1, 32767 / 32768]]\<rparr>
   \<and> pcm16_to_float32 [0x8000, 0x7FFF] = [- 1, 32767 / 32768]
   \<and> js_le (Num (- 3 / 2)) (Num (- 1))
   \<and> sint (float32_sample_to_pcm16 (Num (- 3 / 2))) = - 32768
   \<and> js_le (Num 1) PosInf
   \<and> sint (float32_sample_to_pcm16 PosInf) = 32767"
proof -
  let ?playing = "\<lparr>audioQueue = [], isPlaying = True, sourcesStarted = [[- 1, 32767 / 32768]]\<rparr>"
  have v: "int16_view [0x00, 0x80, 0xFF, 0x7F] = Some [0x8000, 0x7FFF]"
    by (simp add: word_cat_eq)
  have l: "js_le (Num (- 3 / 2)) (Num (- 1))" "js_le (Num 1) PosInf"
    by (simp_all add: js_le_def)
  have c: "\<not> isPlaying playback_constructed" "audioQueue playback_constructed = []"
    "sourcesStarted playback_constructed = []"
    by (simp_all add: playback_constructed_def)
  have m: "pcm16_to_float32 [0x8000, 0x7FFF] = [- 1, 32767 / 32768]"
    using pcm16_float32_conversions_keep_count_and_saturate[of "[]" "[]" playback_constructed
        "[0x8000, 0x7FFF]" "[]" 0 PosInf]
    by simp
  have idle: "playAudio [0x00, 0x80, 0xFF, 0x7F] playback_constructed = Inr ?playing"
    using v c m
      pcm16_float32_conversions_keep_count_and_saturate[of "[0x00, 0x80, 0xFF, 0x7F]"
        "[0x8000, 0x7FFF]" playback_constructed "[]" "[]" 0 "Num (- 3 / 2)"]
    by (auto simp add: playback_constructed_def)
  have busy: "playAudio [0x00, 0x80, 0xFF, 0x7F] ?playing =
      Inr \<lparr>audioQueue = [[- 1, 32767 / 32768]], isPlaying = True,
           sourcesStarted = [[- 1, 32767 / 32768]]\<rparr>"
    using v m
      pcm16_float32_conversions_keep_count_and_saturate[of "[0x00, 0x80, 0xFF, 0x7F]"
        "[0x8000, 0x7FFF]" ?playing "[]" "[]" 0 PosInf]
    by auto
  show ?thesis
    using v l c(1,2) m idle busy
      pcm16_float32_conversions_keep_count_and_saturate[of "[0x00, 0x80, 0xFF, 0x7F]"
        "[0x8000, 0x7FFF]" playback_constructed "[0x8000, 0x7FFF]" "[]" 0 "Num (- 3 / 2)"]
      pcm16_float32_conversions_keep_count_and_saturate[of "[]" "[]" playback_constructed "[]" "[]" 0 PosInf]
    by simp
qed


section \<open>C9: audio intensity\<close>

text \<open>
  C9: for every non-empty frame of bytes (the component's frame has
  \<open>frequencyBinCount\<close> = 1024 of them), \<open>getAudioIntensity\<close> returns
  \<open>min (rms / 128) 1\<close>, where \<open>rms\<close> is the square root of the mean of the
  squared bytes, and the returned number lies in \<open>[0, 1]\<close>.
\<close>

theorem getAudioIntensity_is_clamped_rms:
  assumes "dataArray \<noteq> []"
  shows "getAudioIntensity dataArray =
           Num (min (sqrt ((\<Sum>b\<leftarrow>dataArray. (real (unat b))\<^sup>2) / real (length dataArray)) / 128) 1)
       \<and> (\<exists>v. getAudioIntensity dataArray = Num v \<and> 0 \<le> v \<and> v \<le> 1)"
proof -
  let ?rms = "sqrt ((\<Sum>b\<leftarrow>dataArray. (real (unat b))\<^sup>2) / real (length dataArray))"
  have eq: "getAudioIntensity dataArray = Num (min (?rms / 128) 1)"
    using assms by (simp add: getAudioIntensity_def Let_def sum_of_squares_sum_list)
  have "0 \<le> ?rms" using sum_list_squares_nonneg[of dataArray] by simp
  then have "0 \<le> min (?rms / 128) 1" "min (?rms / 128) 1 \<le> 1" by simp_all
  with eq show ?thesis by simp
qed

theorem getAudioIntensity_is_clamped_rms_witness:
  "[64, 64 :: 8 word] \<noteq> [] \<and> getAudioIntensity [64, 64] = Num (1 / 2)
   \<and> [255, 255 :: 8 word] \<noteq> [] \<and> getAudioIntensity [255, 255] = Num 1
   \<and> replicate frequencyBinCount (0 :: 8 word) \<noteq> []
   \<and> getAudioIntensity (replicate frequencyBinCount 0) = Num 0"
proof -
  have a: "sqrt ((64\<^sup>2 + 64\<^sup>2) / 2) = 64" by (rule real_sqrt_unique) simp_all
  have b: "sqrt ((255\<^sup>2 + 255\<^sup>2) / 2) = 255" by (rule real_sqrt_unique) simp_all
  have n: "replicate frequencyBinCount (0 :: 8 word) \<noteq> []"
    by (simp add: frequencyBinCount_def fftSize_def)
  show ?thesis
    using a b n getAudioIntensity_is_clamped_rms[of "[64, 64]"]
      getAudioIntensity_is_clamped_rms[of "[255, 255]"]
      getAudioIntensity_is_clamped_rms[OF n]
    by (simp add: frequencyBinCount_def fftSize_def sum_list_replicate)
qed


section \<open>C10: what the Web Speech client delivers\<close>

text \<open>
  C10: \<open>setupRecognition\<close> turns interim results off; every call that
  \<open>onresult\<close> makes to \<open>onTranscript\<close> (there is at most one per event) has
  \<open>isFinal = true\<close> and a non-empty text; so with this client a result event
  never makes the orchestrator call \<open>setPhase('listening')\<close>, which only the
  interim branch of \<open>handleTranscript\<close> does.
\<close>

theorem web_speech_delivers_only_final_nonempty_transcripts:
  "interimResults (setupRecognition language) = False
   \<and> (\<forall>calls. onresult event = Inr calls \<longrightarrow>
         length calls \<le> 1 \<and> (\<forall>(text, isFinal) \<in> set calls. isFinal \<and> text \<noteq> []))
   \<and> SetPhase Listening \<notin> set (emitted s (recognition_result now event s))
   \<and> SetPhase Listening \<in> set (emitted s (handleTranscript now text False s))"
proof -
  have a: "interimResults (setupRecognition language) = False"
    by (simp add: setupRecognition_def)
  have b: "length calls \<le> 1 \<and> (\<forall>(text, isFinal) \<in> set calls. isFinal \<and> text \<noteq> [])"
    if "onresult event = Inr calls" for calls
    using onresult_calls[OF that] by auto
  have c: "SetPhase Listening \<notin> set (emitted s (recognition_result now event s))"
    using recognition_result_cases[of now event s]
    by (auto simp: emitted_same handleTranscript_final emitted_def)
  have d: "SetPhase Listening \<in> set (emitted s (handleTranscript now text False s))"
    by (simp add: handleTranscript_def emitted_def Let_def)
  show ?thesis using a b c d by blast
qed

theorem web_speech_delivers_only_final_nonempty_transcripts_witness:
  "onresult heard_example = Inr [(ascii ''hello there'', True)]
   \<and> SetPhase Listening \<notin> set (emitted (startSession (mounted 0))
        (recognition_result 1000 heard_example (startSession (mounted 0))))
   \<and> phase (recognition_result 1000 heard_example (startSession (mounted 0))) = Processing"
  using web_speech_delivers_only_final_nonempty_transcripts[of "ascii ''en-US''" heard_example
      "startSession (mounted 0)" 1000 "[]"]
  by (simp add: onresult_heard_example recognition_result_def handleTranscript_final)

end
